theory Spec2Isabelle
  imports Complex_Main "HOL-Library.Word" "HOL-Library.AList"
begin

section \<open>pytnt: reading and processing TNMR (.tnt) files\<close>

text \<open>
  A shallow embedding of the class \<open>TNTfile\<close> of \<open>pytnt/processTNT.py\<close> (and of the older
  \<open>processTNT.py\<close>, where the two differ). Python exceptions are values of the type
  \<open>error\<close>; a function that may raise returns \<open>error + 'a\<close>, with \<open>Inl\<close> for the exception.
\<close>

datatype error =
    ValueError
  | AssertionError
  | IndexError
  | KeyError
  | UnicodeDecodeError

subsection \<open>Python list access\<close>

text \<open>\<open>xs[i]\<close> for a non-negative index: IndexError out of range.\<close>

definition getitem :: "'a list \<Rightarrow> nat \<Rightarrow> error + 'a" where
  "getitem xs i = (if i < length xs then Inr (xs ! i) else Inl IndexError)"

subsection \<open>The ppm-range lookup\<close>

text \<open>
  \<open>numpy.searchsorted(a, v, side)\<close> is library code: a bisection over \<open>a\<close>, which for
  \<open>side='left'\<close> moves right while \<open>a[mid] < v\<close> and for \<open>side='right'\<close> while
  \<open>a[mid] <= v\<close>. The element type is any linear order (floating-point numbers
  without NaN are one).
\<close>

datatype side = Left | Right

definition goes_right :: "side \<Rightarrow> 'a::linorder \<Rightarrow> 'a \<Rightarrow> bool" where
  "goes_right s v x = (case s of Left \<Rightarrow> x < v | Right \<Rightarrow> x \<le> v)"

function bisect :: "('a \<Rightarrow> bool) \<Rightarrow> 'a list \<Rightarrow> nat \<Rightarrow> nat \<Rightarrow> nat" where
  "bisect P a lo hi =
     (if lo < hi then
        (let mid = lo + (hi - lo) div 2 in
         if P (a ! mid) then bisect P a (mid + 1) hi else bisect P a lo mid)
      else lo)"
  by pat_completeness auto
termination
  by (relation "measure (\<lambda>(P, a, lo, hi). hi - lo)") auto

declare bisect.simps [simp del]

definition searchsorted :: "'a::linorder list \<Rightarrow> 'a \<Rightarrow> side \<Rightarrow> nat" where
  "searchsorted a v s = bisect (goes_right s v) a 0 (length a)"

text \<open>
  \<open>TNTfile.ppm_points\<close> of \<open>pytnt/processTNT.py\<close>. The axis \<open>ppm\<close> is what
  \<open>self.freq_ppm(altDATA)\<close> returns; \<open>ppm[::-1]\<close> is \<open>rev ppm\<close>. The results are Python
  integers.
\<close>

definition ppm_points :: "'a::linorder list \<Rightarrow> 'a \<Rightarrow> 'a \<Rightarrow> int \<times> int" where
  "ppm_points ppm max_ppm min_ppm =
     (let npts = int (length ppm);
          i_max_ppm = npts - int (searchsorted (rev ppm) max_ppm Right);
          i_min_ppm = npts - int (searchsorted (rev ppm) min_ppm Left)
      in (i_max_ppm, i_min_ppm))"

text \<open>
  \<open>TNTfile.ppm_points\<close> of the older \<open>processTNT.py\<close>: two \<open>for\<close> loops that \<open>break\<close> at the
  first hit. \<open>for_break P xs i d\<close> is the loop \<open>for i in range(i, len(xs))\<close> over a variable
  whose value before the loop is \<open>d\<close>.
\<close>

function for_break :: "('a \<Rightarrow> bool) \<Rightarrow> 'a list \<Rightarrow> nat \<Rightarrow> nat \<Rightarrow> nat" where
  "for_break P xs i d =
     (if i < length xs then (if P (xs ! i) then i else for_break P xs (i + 1) d) else d)"
  by pat_completeness auto
termination
  by (relation "measure (\<lambda>(P, xs, i, d). length xs - i)") auto

declare for_break.simps [simp del]

definition ppm_points_linear :: "'a::linorder list \<Rightarrow> 'a \<Rightarrow> 'a \<Rightarrow> int \<times> int" where
  "ppm_points_linear ppm max_ppm min_ppm =
     (let npts = length ppm;
          i_max_ppm = for_break (\<lambda>x. x \<le> max_ppm) ppm 0 0;
          i_min_ppm = for_break (\<lambda>x. x < min_ppm) ppm i_max_ppm npts
      in (int i_max_ppm, int i_min_ppm))"

subsection \<open>The number of complete spectra\<close>

text \<open>
  \<open>TNTfile.n_complete_spec\<close>. \<open>actual_npts\<close>, \<open>scans\<close> and \<open>actual_scans\<close> are fields of the
  TMAG structure; their integer types are declared in \<open>TNTdtypes\<close>, so the widths are
  left open.
\<close>

definition n_complete_spec ::
  "'a::len word list \<Rightarrow> 'b::len word \<Rightarrow> 'b word \<Rightarrow> error + 'a word" where
  "n_complete_spec actual_npts scans actual_scans =
     (if \<not> list_all (\<lambda>d. d = 1) (drop 2 actual_npts) then Inl AssertionError
      else if scans = actual_scans then getitem actual_npts 1
      else map_sum id (\<lambda>n. n - 1) (getitem actual_npts 1))"

subsection \<open>The windowed Fourier transform\<close>

text \<open>
  \<open>DATA\<close> is a four-dimensional complex array. Every operation of \<open>LBfft\<close> runs along the
  first axis and is broadcast over the other three, so an array is the list of its slabs
  along the first axis, and a slab maps the index \<open>'i\<close> of the three other axes to a
  complex number. \<open>DATA.shape[0]\<close> is the length of the list. Numbers are exact reals and
  complex numbers: floating-point rounding, overflow, NaN and infinities are not
  modelled, so nothing below speaks of the last digits of a result.
\<close>

type_synonym 'i slab = "'i \<Rightarrow> complex"

type_synonym 'i ndarray = "'i slab list"

text \<open>\<open>int(x)\<close> of a float: truncation towards zero.\<close>

definition py_int :: "real \<Rightarrow> int" where
  "py_int x = (if 0 \<le> x then \<lfloor>x\<rfloor> else \<lceil>x\<rceil>)"

text \<open>The slice \<open>xs[k:]\<close>: a negative \<open>k\<close> counts from the end, and the start is clipped.\<close>

definition slice_from :: "'a list \<Rightarrow> int \<Rightarrow> 'a list" where
  "slice_from xs k =
     drop (nat (if k < 0 then max 0 (int (length xs) + k) else k)) xs"

text \<open>
  \<open>np.mean(a, axis=0, keepdims=True)\<close>: the mean of the slabs. (Of no slab at all numpy
  returns NaN with a warning; here the quotient by zero is 0. \<open>LBfft\<close> fails on such an
  array in any case, in \<open>fft\<close>.)
\<close>

definition mean_axis0 :: "'i ndarray \<Rightarrow> 'i slab" where
  "mean_axis0 a = (\<lambda>i. (\<Sum>s\<leftarrow>a. s i) / of_nat (length a))"

text \<open>
  \<open>numpy.fft.fft(a, n, axis=0)\<close>: the input is cropped or padded with zeros to length
  \<open>n\<close>, and \<open>n < 1\<close> is a ValueError.
\<close>

definition fft :: "'i ndarray \<Rightarrow> nat \<Rightarrow> error + 'i ndarray" where
  "fft a n =
     (if n < 1 then Inl ValueError
      else
        let x = take n a @ replicate (n - length a) (\<lambda>i. 0) in
        Inr (map (\<lambda>k. \<lambda>i. \<Sum>t<n. (x ! t) i * exp (- 2 * pi * \<i> * of_nat k * of_nat t / of_nat n))
               [0..<n]))"

text \<open>\<open>numpy.fft.fftshift(a, axes=[0])\<close>: a rotation by \<open>n // 2\<close> places.\<close>

definition fftshift :: "'a list \<Rightarrow> 'a list" where
  "fftshift a = (let p = length a - length a div 2 in drop p a @ take p a)"

text \<open>\<open>np.linspace(start, stop, num)\<close>, both ends included.\<close>

definition linspace :: "real \<Rightarrow> real \<Rightarrow> nat \<Rightarrow> real list" where
  "linspace start stop num =
     map (\<lambda>k. if num = 1 then start else start + real k * ((stop - start) / real (num - 1)))
       [0..<num]"

text \<open>
  The estimate of the DC offset that \<open>LBfft\<close> computes when the caller gives none:
  \<open>np.mean(DATA[int(npts / -8):, :, :, :], axis=0, keepdims=True)\<close>.
\<close>

definition DCoffset_estimate :: "'i ndarray \<Rightarrow> 'i slab" where
  "DCoffset_estimate DATA =
     (let npts = length DATA in mean_axis0 (slice_from DATA (py_int (real npts / (- 8)))))"

text \<open>
  \<open>TNTfile.LBfft\<close>. \<open>dwell0\<close> is \<open>self.dwell[0]\<close>, \<open>DATA\<close> is \<open>altDATA\<close> or \<open>self.DATA\<close>, and
  \<open>zf\<close> is a natural number. \<open>phase = None\<close> and \<open>DCoffset = None\<close> are the defaults; a given
  \<open>DCoffset\<close> is broadcast to the shape of \<open>DATA\<close>, so it is a function of the position.
  The text written to \<open>logfile\<close> is left out. \<open>np.sum(DATAfft)\<close> adds up all elements,
  hence the index type is finite.
\<close>

definition LBfft ::
  "real \<Rightarrow> real \<Rightarrow> nat \<Rightarrow> real option \<Rightarrow> real \<Rightarrow> (nat \<Rightarrow> 'i slab) option \<Rightarrow>
   'i::finite ndarray \<Rightarrow> error + 'i ndarray" where
  "LBfft dwell0 LB zf phase ph1 DCoffset DATA =
     (let LBdw = - LB * dwell0 * pi;
          npts = length DATA;
          npts_ft = npts * 2 ^ zf;
          DC = (case DCoffset of
                  None \<Rightarrow> (\<lambda>k. DCoffset_estimate DATA)
                | Some d \<Rightarrow> d);
          lbweight = map (\<lambda>k. exp (LBdw * real k)) [0..<npts];
          DATAlb = map (\<lambda>k. \<lambda>i. ((DATA ! k) i - DC k i) * of_real (lbweight ! k)) [0..<npts]
      in case fft DATAlb npts_ft of
           Inl e \<Rightarrow> Inl e
         | Inr F \<Rightarrow>
             let DATAfft = map (\<lambda>s. \<lambda>i. s i / of_real (sqrt (real npts_ft))) (fftshift F) in
             Inr (case phase of
                    None \<Rightarrow>
                      map (\<lambda>s. \<lambda>i. s i * exp (- \<i> * of_real (Arg (\<Sum>s\<leftarrow>DATAfft. \<Sum>i\<in>UNIV. s i))))
                        DATAfft
                  | Some p \<Rightarrow>
                      map (\<lambda>k. \<lambda>i. (DATAfft ! k) i *
                             exp (\<i> * of_real (p + ph1 * (linspace (- 0.5) 0.5 npts_ft ! k))))
                        [0..<npts_ft]))"

text \<open>\<open>np.abs\<close> of an array, element by element.\<close>

definition np_abs :: "'i ndarray \<Rightarrow> ('i \<Rightarrow> real) list" where
  "np_abs a = map (\<lambda>s. \<lambda>i. cmod (s i)) a"

subsection \<open>Opening a file: the magic number and the section table\<close>

text \<open>
  Bytes are characters; a file is the list of its bytes, read through a cursor.
  \<open>fread tntfile n pos\<close> is \<open>tntfile.read(n)\<close> at the position \<open>pos\<close>: the bytes read (fewer
  than \<open>n\<close> at the end of the file) and the new position.
\<close>

type_synonym bytes = "char list"

definition fread :: "bytes \<Rightarrow> nat \<Rightarrow> nat \<Rightarrow> bytes \<times> nat" where
  "fread tntfile n pos = (take n (drop pos tntfile), pos + length (take n (drop pos tntfile)))"

text \<open>
  The module \<open>TNTdtypes\<close> is not part of the sources, so what \<open>__init__\<close> uses of it
  is a parameter: the size of the magic number and the test \<open>Magic_re.match\<close> on it, the
  size of a section header (the structure \<open>TLV\<close>) and its three fields, the field
  \<open>length\<close> being an unsigned integer.
\<close>

record tnt_dtypes =
  Magic_itemsize :: nat
  Magic_re_match :: "bytes \<Rightarrow> bool"
  TLV_itemsize :: nat
  TLV_tag :: "bytes \<Rightarrow> bytes"
  TLV_length :: "bytes \<Rightarrow> nat"
  TLV_bool :: "bytes \<Rightarrow> bool"

text \<open>
  \<open>np.frombuffer(buf, dtype, count=1)[0]\<close>: the first record of the buffer, here as its
  raw bytes. numpy raises ValueError for a dtype of size 0 and for a buffer that is too
  short.
\<close>

definition frombuffer :: "nat \<Rightarrow> bytes \<Rightarrow> error + bytes" where
  "frombuffer itemsize buf =
     (if itemsize = 0 \<or> length buf < itemsize then Inl ValueError
      else Inr (take itemsize buf))"

text \<open>An entry of \<open>tnt_sections\<close>; the key \<open>'data'\<close> may be absent.\<close>

record hdrdict =
  h_offset :: nat
  h_length :: nat
  h_bool :: bool
  h_data :: "bytes option"

text \<open>
  \<open>tnt_sections\<close> is an OrderedDict: an association list in the order of first
  insertion, where an assignment to a key that is present replaces the value in place.
\<close>

type_synonym sections = "(string \<times> hdrdict) list"

text \<open>
  The body of the \<open>while\<close> loop over the section headers, from the header just read
  (\<open>tnthdrbytes\<close>) and the position after it. \<open>decode\<close> is \<open>self.decode\<close>, which depends on
  the encoding.
\<close>

definition section_body ::
  "tnt_dtypes \<Rightarrow> (bytes \<Rightarrow> error + string) \<Rightarrow> bytes \<Rightarrow> bytes \<Rightarrow> nat \<Rightarrow> sections \<Rightarrow>
   error + sections \<times> nat" where
  "section_body D decode tnthdrbytes tntfile pos tnt_sections =
     (case frombuffer (TLV_itemsize D) tnthdrbytes of
        Inl e \<Rightarrow> Inl e
      | Inr tntTLV \<Rightarrow>
          (let data_length = TLV_length D tntTLV;
               hdrdict = \<lparr>h_offset = pos, h_length = data_length,
                          h_bool = TLV_bool D tntTLV, h_data = None\<rparr>
           in (case (if data_length \<le> 4096 then
                       (case fread tntfile data_length pos of
                          (d, pos') \<Rightarrow>
                            if length d = data_length
                            then Inr ((hdrdict\<lparr>h_data := Some d\<rparr>), pos')
                            else Inl AssertionError)
                     else Inr (hdrdict, pos + data_length)) of
                 Inl e \<Rightarrow> Inl e
               | Inr (hdrdict', pos') \<Rightarrow>
                   (case decode (TLV_tag D tntTLV) of
                      Inl e \<Rightarrow> Inl e
                    | Inr tag \<Rightarrow> Inr (AList.update tag hdrdict' tnt_sections, pos')))))"

text \<open>
  The loop: a header is read at the top of each round (the source reads the first one
  before the loop and the next one at the end of the body).
\<close>

function read_sections ::
  "tnt_dtypes \<Rightarrow> (bytes \<Rightarrow> error + string) \<Rightarrow> bytes \<Rightarrow> nat \<Rightarrow> sections \<Rightarrow>
   error + sections \<times> nat" where
  "read_sections D decode tntfile pos tnt_sections =
     (case fread tntfile (TLV_itemsize D) pos of
        (tnthdrbytes, pos1) \<Rightarrow>
          if TLV_itemsize D = length tnthdrbytes then
            (case section_body D decode tnthdrbytes tntfile pos1 tnt_sections of
               Inl e \<Rightarrow> Inl e
             | Inr (tnt_sections', pos2) \<Rightarrow> read_sections D decode tntfile pos2 tnt_sections')
          else Inr (tnt_sections, pos1))"
  by pat_completeness auto
termination
proof (relation "measure (\<lambda>(D, decode, tntfile, pos, tnt_sections). length tntfile - pos)")
  show "wf (measure (\<lambda>(D, decode, tntfile, pos, tnt_sections). length tntfile - pos))"
    by simp
next
  fix D decode and f :: bytes and pos tnt_sections tnthdrbytes pos1 y tnt_sections' pos2
  assume rd: "(tnthdrbytes, pos1) = fread f (TLV_itemsize D) pos"
    and full: "TLV_itemsize D = length tnthdrbytes"
    and body: "section_body D decode tnthdrbytes f pos1 tnt_sections = Inr y"
      "(tnt_sections', pos2) = y"
  from rd have hdr: "tnthdrbytes = take (TLV_itemsize D) (drop pos f)"
    and pos1: "pos1 = pos + length tnthdrbytes"
    by (auto simp: fread_def)
  from body have progress: "0 < TLV_itemsize D" "pos1 \<le> pos2"
    by (auto simp: section_body_def frombuffer_def fread_def Let_def
        split: if_splits sum.splits prod.splits)
  from arg_cong [OF hdr, of length] full have le: "length tnthdrbytes \<le> length f - pos"
    by simp
  from progress(1) full have "0 < length tnthdrbytes" by simp
  with le progress(2) pos1 have "length f - pos2 < length f - pos" by linarith
  then show "((D, decode, f, pos2, tnt_sections'), (D, decode, f, pos, tnt_sections))
          \<in> measure (\<lambda>(D, decode, tntfile, pos, tnt_sections). length tntfile - pos)"
    by simp
qed

declare read_sections.simps [simp del]

subsection \<open>The delay tables\<close>

text \<open>
  \<open>delay_re = re.compile(b'de[0-9]+:[0-9]')\<close>. \<open>delay_re_match s\<close> is the length of the match
  of the pattern at the start of \<open>s\<close>, if there is one. The digits are matched greedily;
  a shorter run of digits is followed by a digit, never by the colon, so backtracking
  finds no other match.
\<close>

definition isdigit :: "char \<Rightarrow> bool" where
  "isdigit c = (48 \<le> (of_char c :: nat) \<and> (of_char c :: nat) \<le> 57)"

definition delay_re_match :: "bytes \<Rightarrow> nat option" where
  "delay_re_match s =
     (case s of
        d # e # rest \<Rightarrow>
          (let digits = takeWhile isdigit rest;
               tail = drop (length digits) rest
           in if d = CHR ''d'' \<and> e = CHR ''e'' \<and> digits \<noteq> [] \<and>
                 (case tail of c # g # _ \<Rightarrow> c = CHR '':'' \<and> isdigit g | _ \<Rightarrow> False)
              then Some (length digits + 4)
              else None)
      | _ \<Rightarrow> None)"

text \<open>
  \<open>delay_re.finditer(search_region)\<close>, as the list of \<open>match.start()\<close>: the matches are
  found from left to right and do not overlap. \<open>finditer s pos skip\<close> scans \<open>s\<close>, which
  begins at the position \<open>pos\<close> of the region, after passing over the \<open>skip\<close> bytes that are
  left of the match found last.
\<close>

fun finditer :: "bytes \<Rightarrow> nat \<Rightarrow> nat \<Rightarrow> nat list" where
  "finditer [] pos skip = []"
| "finditer (c # cs) pos skip =
     (if 0 < skip then finditer cs (pos + 1) (skip - 1)
      else (case delay_re_match (c # cs) of
              Some n \<Rightarrow> pos # finditer cs (pos + 1) (n - 1)
            | None \<Rightarrow> finditer cs (pos + 1) 0))"

text \<open>An unsigned integer from its bytes, the least significant byte first.\<close>

fun le_nat :: "bytes \<Rightarrow> nat" where
  "le_nat [] = 0"
| "le_nat (b # bs) = of_char b + 256 * le_nat bs"

text \<open>
  Modelled from the spec: \<open>utils.read_pascal_string\<close>, which is not part of the sources.
  The first bytes hold an unsigned length (four bytes: \<open>__init__\<close> steps back by four to
  reach the length of the name), the payload of that length follows and is decoded with
  the encoding; a length that exceeds the rest of the buffer is an IndexError.
\<close>

definition read_pascal_string :: "(bytes \<Rightarrow> error + string) \<Rightarrow> bytes \<Rightarrow> error + string" where
  "read_pascal_string decode data =
     (if length data < 4 then Inl IndexError
      else
        let n = le_nat (take 4 data) in
        if length data - 4 < n then Inl IndexError else decode (take n (drop 4 data)))"

text \<open>
  \<open>str.split()\<close> with no argument: the words between runs of whitespace. The whitespace
  characters below 256 are the code points 9 to 13, 28 to 32, 133 and 160.
\<close>

definition isspace :: "char \<Rightarrow> bool" where
  "isspace c = ((of_char c :: nat) \<in> {9, 10, 11, 12, 13, 28, 29, 30, 31, 32, 133, 160})"

fun split_from :: "string \<Rightarrow> string \<Rightarrow> string list" where
  "split_from w [] = (if w = [] then [] else [w])"
| "split_from w (c # cs) =
     (if isspace c then (if w = [] then split_from [] cs else w # split_from [] cs)
      else split_from (w @ [c]) cs)"

definition str_split :: "string \<Rightarrow> string list" where
  "str_split s = split_from [] s"

text \<open>
  The \<open>for\<close> loop of \<open>__init__\<close> over the matches. \<open>convert_si\<close> is \<open>utils.convert_si\<close>, which
  is not part of the sources and is a parameter; \<open>DELAY\<close> is the dictionary built so far.
  An IndexError of the first \<open>read_pascal_string\<close> is caught and the match is skipped;
  every other exception leaves the loop.
\<close>

fun delay_loop ::
  "(bytes \<Rightarrow> error + string) \<Rightarrow> (string list \<Rightarrow> error + 'v) \<Rightarrow> bytes \<Rightarrow> nat list \<Rightarrow>
   (string \<times> 'v) list \<Rightarrow> error + (string \<times> 'v) list" where
  "delay_loop decode convert_si search_region [] DELAY = Inr DELAY"
| "delay_loop decode convert_si search_region (start # matches) DELAY =
     (case read_pascal_string decode (slice_from search_region (int start - 4)) of
        Inl e \<Rightarrow>
          if e = IndexError then delay_loop decode convert_si search_region matches DELAY
          else Inl e
      | Inr delay_name \<Rightarrow>
          (case read_pascal_string decode
                  (slice_from search_region (int start + int (length delay_name))) of
             Inl e \<Rightarrow> Inl e
           | Inr delay \<Rightarrow>
               if length delay > 1 then
                 (case convert_si (str_split delay) of
                    Inl e \<Rightarrow> Inl e
                  | Inr delays \<Rightarrow>
                      delay_loop decode convert_si search_region matches
                        (AList.update delay_name delays DELAY))
               else delay_loop decode convert_si search_region matches DELAY))"

definition delay_tables ::
  "(bytes \<Rightarrow> error + string) \<Rightarrow> (string list \<Rightarrow> error + 'v) \<Rightarrow> bytes \<Rightarrow>
   error + (string \<times> 'v) list" where
  "delay_tables decode convert_si search_region =
     delay_loop decode convert_si search_region (finditer search_region 0 0) []"

subsection \<open>The constructor\<close>

text \<open>
  The \<open>with\<close> block of \<open>TNTfile.__init__\<close>: the magic number, the section table and the
  delay tables. \<open>tntfile.seek(offset)\<close> followed by \<open>tntfile.read()\<close> gives the file from
  \<open>offset\<close> on.
\<close>

definition with_block ::
  "tnt_dtypes \<Rightarrow> (bytes \<Rightarrow> error + string) \<Rightarrow> (string list \<Rightarrow> error + 'v) \<Rightarrow> bytes \<Rightarrow>
   error + bytes \<times> sections \<times> (string \<times> 'v) list" where
  "with_block D decode convert_si tntfile =
     (case fread tntfile (Magic_itemsize D) 0 of
        (magicbytes, pos) \<Rightarrow>
          (case frombuffer (Magic_itemsize D) magicbytes of
             Inl e \<Rightarrow> Inl e
           | Inr tntmagic \<Rightarrow>
               if \<not> Magic_re_match D tntmagic then Inl ValueError
               else
                 (case read_sections D decode tntfile pos [] of
                    Inl e \<Rightarrow> Inl e
                  | Inr (tnt_sections, pos') \<Rightarrow>
                      (case map_of tnt_sections ''PSEQ'' of
                         None \<Rightarrow> Inl KeyError
                       | Some pseq \<Rightarrow>
                           (case delay_tables decode convert_si (drop (h_offset pseq) tntfile) of
                              Inl e \<Rightarrow> Inl e
                            | Inr DELAY \<Rightarrow> Inr (tntmagic, tnt_sections, DELAY))))))"

text \<open>
  What the constructor does to the file system: it opens the file, and the \<open>with\<close>
  statement closes it, also when the block raises. The statements after the block
  (the decoding of TMAG and TMG2 and the memory map of DATA, which need \<open>TNTdtypes\<close>) are
  the parameter \<open>rest\<close>: from what the block has built they give the object or an
  exception, and the events they add. They run only when the block has not raised.
\<close>

datatype event = Open | Close | Memmap

definition TNTfile_init ::
  "tnt_dtypes \<Rightarrow> (bytes \<Rightarrow> error + string) \<Rightarrow> (string list \<Rightarrow> error + 'v) \<Rightarrow>
   (bytes \<times> sections \<times> (string \<times> 'v) list \<Rightarrow> (error + 'obj) \<times> event list) \<Rightarrow> bytes \<Rightarrow>
   (error + 'obj) \<times> event list" where
  "TNTfile_init D decode convert_si rest tntfile =
     (case with_block D decode convert_si tntfile of
        Inl e \<Rightarrow> (Inl e, [Open, Close])
      | Inr built \<Rightarrow> (case rest built of (result, events) \<Rightarrow> (result, [Open, Close] @ events)))"

text \<open>\<open>str(bdata, encoding='ascii')\<close>, the default encoding.\<close>

definition decode_ascii :: "bytes \<Rightarrow> error + string" where
  "decode_ascii bdata =
     (if list_all (\<lambda>b. (of_char b :: nat) < 128) bdata then Inr bdata else Inl UnicodeDecodeError)"

text \<open>
  An instance of the parameters, for the examples: a magic number of eight bytes,
  \<open>TNT1.\<close> and three digits, and a header of twelve bytes, the tag, the flag and the
  length, the least significant byte first.
\<close>

definition example_dtypes :: tnt_dtypes where
  "example_dtypes =
     \<lparr>Magic_itemsize = 8,
      Magic_re_match = (\<lambda>b. take 5 b = ''TNT1.'' \<and> length b = 8 \<and> list_all isdigit (drop 5 b)),
      TLV_itemsize = 12,
      TLV_tag = take 4,
      TLV_length = (\<lambda>b. le_nat (take 4 (drop 8 b))),
      TLV_bool = (\<lambda>b. le_nat (take 4 (drop 4 b)) \<noteq> 0)\<rparr>"

section \<open>Properties\<close>

subsection \<open>The ppm-range lookup\<close>

lemma filter_eq_takeWhile_closed:
  "sorted_wrt (\<lambda>x y. P y \<longrightarrow> P x) xs \<Longrightarrow> filter P xs = takeWhile P xs"
proof (induction xs)
  case Nil
  then show ?case by simp
next
  case (Cons x xs)
  show ?case
  proof (cases "P x")
    case True
    with Cons show ?thesis by simp
  next
    case False
    with Cons.prems have "\<forall>y\<in>set xs. \<not> P y" by auto
    then have "filter P xs = []" by (simp add: filter_empty_conv)
    with False show ?thesis by simp
  qed
qed

lemma length_takeWhile_unique:
  assumes "k \<le> length xs" "\<forall>i<k. P (xs ! i)" "k < length xs \<longrightarrow> \<not> P (xs ! k)"
  shows "length (takeWhile P xs) = k"
proof -
  have "takeWhile P xs = take k xs"
    using assms by (intro takeWhile_eq_take_P_nth) auto
  with assms(1) show ?thesis by simp
qed

lemma bisect_takeWhile:
  "sorted_wrt (\<lambda>x y. P y \<longrightarrow> P x) a \<Longrightarrow> lo \<le> hi \<Longrightarrow> hi \<le> length a \<Longrightarrow>
   \<forall>i<lo. P (a ! i) \<Longrightarrow> \<forall>i. hi \<le> i \<and> i < length a \<longrightarrow> \<not> P (a ! i) \<Longrightarrow>
   bisect P a lo hi = length (takeWhile P a)"
proof (induction P a lo hi rule: bisect.induct)
  case (1 P a lo hi)
  note closed = sorted_wrt_nth_less [OF "1.prems"(1)]
  show ?case
  proof (cases "lo < hi")
    case False
    with "1.prems" have "lo = hi" by simp
    with "1.prems" have "length (takeWhile P a) = lo"
      by (intro length_takeWhile_unique) auto
    with False show ?thesis by (simp add: bisect.simps [of P a lo hi])
  next
    case True
    define mid where "mid = lo + (hi - lo) div 2"
    have mid: "lo \<le> mid" "mid < hi" using True by (auto simp: mid_def)
    show ?thesis
    proof (cases "P (a ! mid)")
      case P: True
      have "\<forall>i<mid + 1. P (a ! i)"
      proof (intro allI impI)
        fix i assume "i < mid + 1"
        then consider "i = mid" | "i < mid" by linarith
        then show "P (a ! i)"
          using P closed [of i mid] mid "1.prems"(3) by cases auto
      qed
      with "1.IH"(1) [OF True mid_def P "1.prems"(1)] mid "1.prems"
      have "bisect P a (mid + 1) hi = length (takeWhile P a)" by simp
      with True P show ?thesis
        by (simp add: bisect.simps [of P a lo hi] mid_def Let_def)
    next
      case nP: False
      have "\<forall>i. mid \<le> i \<and> i < length a \<longrightarrow> \<not> P (a ! i)"
      proof (intro allI impI)
        fix i assume i: "mid \<le> i \<and> i < length a"
        then consider "i = mid" | "mid < i" by linarith
        then show "\<not> P (a ! i)"
          using nP closed [of mid i] i by cases auto
      qed
      with "1.IH"(2) [OF True mid_def nP "1.prems"(1)] mid "1.prems"
      have "bisect P a lo mid = length (takeWhile P a)" by simp
      with True nP show ?thesis
        by (simp add: bisect.simps [of P a lo hi] mid_def Let_def)
    qed
  qed
qed

lemma searchsorted_sorted:
  assumes "sorted a"
  shows "searchsorted a v s = length (filter (goes_right s v) a)"
proof -
  have cl: "sorted_wrt (\<lambda>x y. goes_right s v y \<longrightarrow> goes_right s v x) a"
    using assms by (rule sorted_wrt_mono_rel [rotated]) (auto simp: goes_right_def split: side.splits)
  have "bisect (goes_right s v) a 0 (length a) = length (takeWhile (goes_right s v) a)"
    using cl by (intro bisect_takeWhile) auto
  with cl show ?thesis
    by (simp add: searchsorted_def filter_eq_takeWhile_closed)
qed

lemma goes_right_fun:
  "goes_right Right v = (\<lambda>x. x \<le> v)" "goes_right Left v = (\<lambda>x. x < v)"
  by (simp_all add: fun_eq_iff goes_right_def)

lemma length_filter_compl:
  "int (length xs) - int (length (filter P xs)) = int (length (filter (\<lambda>x. \<not> P x) xs))"
  using sum_length_filter_compl [of P xs] by simp

lemma ppm_points_takeWhile:
  assumes "sorted (rev ppm)"
  shows "ppm_points ppm max_ppm min_ppm =
           (int (length (takeWhile (\<lambda>x. max_ppm < x) ppm)),
            int (length (takeWhile (\<lambda>x. min_ppm \<le> x) ppm)))"
proof -
  have dec: "sorted_wrt (\<lambda>x y. y \<le> x) ppm"
    using assms by (simp add: sorted_wrt_rev)
  have 1: "sorted_wrt (\<lambda>x y. max_ppm < y \<longrightarrow> max_ppm < x) ppm"
    using dec by (rule sorted_wrt_mono_rel [rotated]) auto
  have 2: "sorted_wrt (\<lambda>x y. min_ppm \<le> y \<longrightarrow> min_ppm \<le> x) ppm"
    using dec by (rule sorted_wrt_mono_rel [rotated]) auto
  have l: "length (filter P (rev ppm)) = length (filter P ppm)" for P
    by (simp flip: rev_filter)
  have a: "int (length ppm) - int (searchsorted (rev ppm) max_ppm Right)
             = int (length (takeWhile (\<lambda>x. max_ppm < x) ppm))"
    using length_filter_compl [of ppm "\<lambda>x. x \<le> max_ppm"] filter_eq_takeWhile_closed [OF 1]
    by (simp add: searchsorted_sorted [OF assms] goes_right_fun l not_le)
  have b: "int (length ppm) - int (searchsorted (rev ppm) min_ppm Left)
             = int (length (takeWhile (\<lambda>x. min_ppm \<le> x) ppm))"
    using length_filter_compl [of ppm "\<lambda>x. x < min_ppm"] filter_eq_takeWhile_closed [OF 2]
    by (simp add: searchsorted_sorted [OF assms] goes_right_fun l not_less)
  show ?thesis by (simp add: ppm_points_def Let_def a b)
qed


lemma for_break_takeWhile:
  "i \<le> length xs \<Longrightarrow>
   for_break P xs i d =
     (let k = i + length (takeWhile (\<lambda>x. \<not> P x) (drop i xs)) in if k < length xs then k else d)"
proof (induction P xs i d rule: for_break.induct)
  case (1 P xs i d)
  show ?case
  proof (cases "i < length xs")
    case False
    then show ?thesis by (simp add: for_break.simps [of P xs i d])
  next
    case True
    then have dr: "drop i xs = xs ! i # drop (Suc i) xs"
      by (simp add: Cons_nth_drop_Suc)
    show ?thesis
    proof (cases "P (xs ! i)")
      case P: True
      with True show ?thesis by (simp add: for_break.simps [of P xs i d] dr)
    next
      case nP: False
      with "1.IH" [OF True nP] True show ?thesis
        by (simp add: for_break.simps [of P xs i d] dr Let_def)
    qed
  qed
qed

lemma takeWhile_weaker:
  "(\<And>x. P x \<Longrightarrow> Q x) \<Longrightarrow>
   length (takeWhile Q xs) =
     length (takeWhile P xs) + length (takeWhile Q (drop (length (takeWhile P xs)) xs))"
  by (induction xs) auto

lemma length_takeWhile_all:
  "length (takeWhile P xs) = length xs \<longleftrightarrow> (\<forall>x\<in>set xs. P x)"
proof (induction xs)
  case Nil
  then show ?case by simp
next
  case (Cons x xs)
  then show ?case
    using length_takeWhile_le [of P xs] by auto
qed

lemma length_takeWhile_drop_le:
  "i \<le> length xs \<Longrightarrow> i + length (takeWhile P (drop i xs)) \<le> length xs"
  using length_takeWhile_le [of P "drop i xs"] by simp

lemma ppm_points_linear_takeWhile:
  assumes "min_ppm \<le> max_ppm"
  shows "ppm_points_linear ppm max_ppm min_ppm =
           (if \<exists>x\<in>set ppm. x \<le> max_ppm
            then (int (length (takeWhile (\<lambda>x. max_ppm < x) ppm)),
                  int (length (takeWhile (\<lambda>x. min_ppm \<le> x) ppm)))
            else (0, int (length ppm)))"
proof -
  let ?k = "length (takeWhile (\<lambda>x. max_ppm < x) ppm)"
  have imax: "for_break (\<lambda>x. x \<le> max_ppm) ppm 0 0 = (if ?k < length ppm then ?k else 0)"
    by (simp add: for_break_takeWhile Let_def not_le)
  have imin: "for_break (\<lambda>x. x < min_ppm) ppm i (length ppm)
                = i + length (takeWhile (\<lambda>x. min_ppm \<le> x) (drop i ppm))"
    if "i \<le> length ppm" for i
    using that length_takeWhile_drop_le [OF that, of "\<lambda>x. min_ppm \<le> x"]
    by (simp add: for_break_takeWhile Let_def not_less)
  have split: "length (takeWhile (\<lambda>x. min_ppm \<le> x) ppm)
                 = ?k + length (takeWhile (\<lambda>x. min_ppm \<le> x) (drop ?k ppm))"
    using assms by (intro takeWhile_weaker) auto
  show ?thesis
  proof (cases "\<exists>x\<in>set ppm. x \<le> max_ppm")
    case True
    then have "?k \<noteq> length ppm"
      by (auto simp: length_takeWhile_all not_less)
    then have "?k < length ppm"
      using length_takeWhile_le [of "\<lambda>x. max_ppm < x" ppm] by simp
    with True show ?thesis
      using imin [of ?k] split by (simp add: ppm_points_linear_def Let_def imax)
  next
    case False
    then have all: "\<forall>x\<in>set ppm. max_ppm < x" by auto
    then have k: "?k = length ppm" by (simp add: length_takeWhile_all)
    from all assms have "\<forall>x\<in>set ppm. min_ppm \<le> x" by auto
    then have "length (takeWhile (\<lambda>x. min_ppm \<le> x) ppm) = length ppm"
      by (simp add: length_takeWhile_all)
    with False k show ?thesis
      using imin [of 0] by (simp add: ppm_points_linear_def Let_def imax)
  qed
qed

text \<open>
  Claim C2. On an axis that decreases monotonically and for \<open>min_ppm \<le> max_ppm\<close>,
  \<open>ppm_points\<close> returns \<open>(i_start, i_end)\<close> where \<open>i_start\<close> is the first index whose value
  is \<open>\<le> max_ppm\<close> (every earlier value is above \<open>max_ppm\<close>) and \<open>i_end\<close> is the first
  index at or beyond \<open>i_start\<close> whose value is \<open>< min_ppm\<close>; an index that does not exist
  is the length of the axis. \<open>i_start\<close> is 0 when \<open>max_ppm\<close> is above the whole axis and
  \<open>i_end\<close> is the length when \<open>min_ppm\<close> is below it. On \<open>[10, 8, 6, 4, 2]\<close> the results
  for \<open>(9, 3)\<close> and \<open>(20, -5)\<close> are \<open>(1, 4)\<close> and \<open>(0, 5)\<close>.
\<close>

theorem ppm_points_first_indices:
  fixes ppm :: "'a::linorder list"
  assumes "sorted (rev ppm)" and "min_ppm \<le> max_ppm"
  shows "(\<exists>i_start i_end.
            ppm_points ppm max_ppm min_ppm = (int i_start, int i_end)
          \<and> i_start \<le> i_end \<and> i_end \<le> length ppm
          \<and> (\<forall>j<i_start. max_ppm < ppm ! j)
          \<and> (i_start < length ppm \<longrightarrow> ppm ! i_start \<le> max_ppm)
          \<and> (\<forall>j. i_start \<le> j \<and> j < i_end \<longrightarrow> min_ppm \<le> ppm ! j)
          \<and> (i_end < length ppm \<longrightarrow> ppm ! i_end < min_ppm)
          \<and> ((\<forall>x\<in>set ppm. x \<le> max_ppm) \<longrightarrow> i_start = 0)
          \<and> ((\<forall>x\<in>set ppm. min_ppm \<le> x) \<longrightarrow> i_end = length ppm))
       \<and> ppm_points [10, 8, 6, 4, 2 :: real] 9 3 = (1, 4)
       \<and> ppm_points [10, 8, 6, 4, 2 :: real] 20 (- 5) = (0, 5)"
proof -
  let ?s = "length (takeWhile (\<lambda>x. max_ppm < x) ppm)"
  let ?e = "length (takeWhile (\<lambda>x. min_ppm \<le> x) ppm)"
  have se: "?e = ?s + length (takeWhile (\<lambda>x. min_ppm \<le> x) (drop ?s ppm))"
    using assms(2) by (intro takeWhile_weaker) auto
  have 1: "ppm_points ppm max_ppm min_ppm = (int ?s, int ?e)"
    by (rule ppm_points_takeWhile [OF assms(1)])
  have 2: "?s \<le> ?e" using se by simp
  have 3: "?e \<le> length ppm" by (rule length_takeWhile_le)
  have 4: "\<forall>j<?s. max_ppm < ppm ! j"
  proof (intro allI impI)
    fix j assume j: "j < ?s"
    then have "takeWhile (\<lambda>x. max_ppm < x) ppm ! j \<in> set (takeWhile (\<lambda>x. max_ppm < x) ppm)"
      by (rule nth_mem)
    then show "max_ppm < ppm ! j"
      using j by (auto simp: takeWhile_nth dest: set_takeWhileD)
  qed
  have 5: "?s < length ppm \<longrightarrow> ppm ! ?s \<le> max_ppm"
    using nth_length_takeWhile [of "\<lambda>x. max_ppm < x" ppm] by auto
  have 6: "\<forall>j. ?s \<le> j \<and> j < ?e \<longrightarrow> min_ppm \<le> ppm ! j"
  proof (intro allI impI)
    fix j assume "?s \<le> j \<and> j < ?e"
    then have j: "j < ?e" by simp
    then have "takeWhile (\<lambda>x. min_ppm \<le> x) ppm ! j \<in> set (takeWhile (\<lambda>x. min_ppm \<le> x) ppm)"
      by (rule nth_mem)
    then show "min_ppm \<le> ppm ! j"
      using j by (auto simp: takeWhile_nth dest: set_takeWhileD)
  qed
  have 7: "?e < length ppm \<longrightarrow> ppm ! ?e < min_ppm"
    using nth_length_takeWhile [of "\<lambda>x. min_ppm \<le> x" ppm] by auto
  have 8: "(\<forall>x\<in>set ppm. x \<le> max_ppm) \<longrightarrow> ?s = 0"
    by (cases ppm) auto
  have 9: "(\<forall>x\<in>set ppm. min_ppm \<le> x) \<longrightarrow> ?e = length ppm"
    by (simp add: length_takeWhile_all)
  have ex1: "ppm_points [10, 8, 6, 4, 2 :: real] 9 3 = (1, 4)"
    by (simp add: ppm_points_takeWhile)
  have ex2: "ppm_points [10, 8, 6, 4, 2 :: real] 20 (- 5) = (0, 5)"
    by (simp add: ppm_points_takeWhile)
  from 1 2 3 4 5 6 7 8 9 ex1 ex2 show ?thesis by blast
qed

theorem ppm_points_first_indices_witness:
  "sorted (rev [10, 8, 6, 4, 2 :: real]) \<and> (3 :: real) \<le> 9
   \<and> ppm_points [10, 8, 6, 4, 2 :: real] 9 3 = (1, 4)"
  using ppm_points_first_indices [of "[10, 8, 6, 4, 2 :: real]" 3 9] by simp

text \<open>
  Claim C9. On an axis of length \<open>n\<close> that decreases monotonically and for
  \<open>min_ppm \<le> max_ppm\<close>, the pair returned by \<open>ppm_points\<close> is a half-open range:
  \<open>0 \<le> i_start \<le> i_end \<le> n\<close>.
\<close>

theorem ppm_points_half_open_range:
  fixes ppm :: "'a::linorder list"
  assumes "sorted (rev ppm)" and "min_ppm \<le> max_ppm"
  shows "0 \<le> fst (ppm_points ppm max_ppm min_ppm)
       \<and> fst (ppm_points ppm max_ppm min_ppm) \<le> snd (ppm_points ppm max_ppm min_ppm)
       \<and> snd (ppm_points ppm max_ppm min_ppm) \<le> int (length ppm)"
proof -
  have "length (takeWhile (\<lambda>x. max_ppm < x) ppm) \<le> length (takeWhile (\<lambda>x. min_ppm \<le> x) ppm)"
    using takeWhile_weaker [of "\<lambda>x. max_ppm < x" "\<lambda>x. min_ppm \<le> x" ppm] assms(2) by auto
  then show ?thesis
    using length_takeWhile_le [of "\<lambda>x. min_ppm \<le> x" ppm]
    by (simp add: ppm_points_takeWhile [OF assms(1)])
qed

theorem ppm_points_half_open_range_witness:
  "sorted (rev [9, 7, 7, 1 :: real]) \<and> (2 :: real) \<le> 8
   \<and> ppm_points [9, 7, 7, 1 :: real] 8 2 = (1, 3)
   \<and> (0 :: int) \<le> 1 \<and> (1 :: int) \<le> 3 \<and> (3 :: int) \<le> int (length [9, 7, 7, 1 :: real])"
proof -
  have v: "ppm_points [9, 7, 7, 1 :: real] 8 2 = (1, 3)"
    by (simp add: ppm_points_takeWhile)
  show ?thesis
    using ppm_points_half_open_range [of "[9, 7, 7, 1 :: real]" 2 8] by (simp add: v)
qed

text \<open>
  The linear scan of \<open>processTNT.py\<close> and the bisection of \<open>pytnt/processTNT.py\<close> return
  the same pair exactly when the axis is empty or has a value \<open>\<le> max_ppm\<close>: they differ
  where the default \<open>i_max_ppm = 0\<close> of the linear scan takes effect.
\<close>

lemma ppm_points_linear_eq_iff:
  fixes ppm :: "'a::linorder list"
  assumes "sorted (rev ppm)" and "min_ppm \<le> max_ppm"
  shows "(ppm_points_linear ppm max_ppm min_ppm = ppm_points ppm max_ppm min_ppm)
           \<longleftrightarrow> (ppm = [] \<or> (\<exists>x\<in>set ppm. x \<le> max_ppm))"
proof (cases "\<exists>x\<in>set ppm. x \<le> max_ppm")
  case True
  then show ?thesis
    by (simp add: ppm_points_takeWhile [OF assms(1)] ppm_points_linear_takeWhile [OF assms(2)])
next
  case False
  then have "length (takeWhile (\<lambda>x. max_ppm < x) ppm) = length ppm"
    by (auto simp: length_takeWhile_all not_le)
  with False show ?thesis
    by (auto simp: ppm_points_takeWhile [OF assms(1)] ppm_points_linear_takeWhile [OF assms(2)])
qed

text \<open>
  Claim C3 says that on a decreasing axis and for \<open>max_ppm \<ge> min_ppm\<close> the linear scan of
  \<open>processTNT.py\<close> and the bisection of \<open>pytnt/processTNT.py\<close> return the same pair. The
  linear scan breaks it: on the axis \<open>[10, 8]\<close> with \<open>max_ppm = 5\<close> and \<open>min_ppm = 3\<close>, a
  window below the whole axis, its first loop never hits, \<open>i_max_ppm\<close> keeps the default
  0 and the result is \<open>(0, 2)\<close>, the whole axis, where the bisection returns the empty
  range \<open>(2, 2)\<close>. For the window \<open>(30, 20)\<close> above the whole axis both return the empty
  range \<open>(0, 0)\<close>.
\<close>

theorem ppm_points_linear_whole_axis:
  "sorted (rev [10, 8 :: real]) \<and> (3 :: real) \<le> 5
   \<and> ppm_points_linear [10, 8 :: real] 5 3 = (0, 2)
   \<and> ppm_points [10, 8 :: real] 5 3 = (2, 2)
   \<and> ppm_points_linear [10, 8 :: real] 30 20 = (0, 0)
   \<and> ppm_points [10, 8 :: real] 30 20 = (0, 0)"
  by (simp add: ppm_points_takeWhile ppm_points_linear_takeWhile)

subsection \<open>The number of complete spectra\<close>

text \<open>
  Claim C5. \<open>n_complete_spec\<close> fails its assertion unless every dimension of
  \<open>actual_npts\<close> beyond the second is 1; otherwise it returns \<open>actual_npts[1]\<close> when
  \<open>scans = actual_scans\<close> and \<open>actual_npts[1] - 1\<close> when not. For \<open>[N, 5, 1, 1]\<close> and
  \<open>scans = 8\<close> it returns 5 when \<open>actual_scans = 8\<close> and 4 when \<open>actual_scans = 5\<close>.
\<close>

theorem n_complete_spec_result:
  fixes actual_npts :: "'a::len word list" and scans actual_scans :: "'b::len word"
    and N :: "32 word"
  shows "(\<not> list_all (\<lambda>d. d = 1) (drop 2 actual_npts) \<longrightarrow>
            n_complete_spec actual_npts scans actual_scans = Inl AssertionError)
       \<and> (list_all (\<lambda>d. d = 1) (drop 2 actual_npts) \<and> 2 \<le> length actual_npts \<longrightarrow>
            n_complete_spec actual_npts scans actual_scans =
              Inr (if scans = actual_scans then actual_npts ! 1 else actual_npts ! 1 - 1))
       \<and> n_complete_spec [N, 5, 1, 1] (8 :: 32 word) 8 = Inr 5
       \<and> n_complete_spec [N, 5, 1, 1] (8 :: 32 word) 5 = Inr 4"
  by (simp add: n_complete_spec_def getitem_def)

theorem n_complete_spec_result_witness:
  "n_complete_spec [1024, 5, 1, 1 :: 32 word] (8 :: 32 word) 8 = Inr 5
   \<and> n_complete_spec [1024, 5, 1, 1 :: 32 word] (8 :: 32 word) 5 = Inr 4
   \<and> n_complete_spec [1024, 5, 2, 1 :: 32 word] (8 :: 32 word) 8 = Inl AssertionError"
  using n_complete_spec_result [of "[1024, 5, 1, 1 :: 32 word]" "8 :: 32 word" 8 1024]
    n_complete_spec_result [of "[1024, 5, 1, 1 :: 32 word]" "8 :: 32 word" 5 1024]
    n_complete_spec_result [of "[1024, 5, 2, 1 :: 32 word]" "8 :: 32 word" 8 1024]
  by simp

subsection \<open>The windowed Fourier transform\<close>

lemma py_int_eighth: "py_int (real n / (- 8)) = - int (n div 8)"
proof (cases "n < 8")
  case True
  then have "- 1 < real n / (- 8)" "real n / (- 8) \<le> 0" by simp_all
  then have "\<lceil>real n / (- 8)\<rceil> = 0" "real n / (- 8) \<ge> 0 \<longrightarrow> \<lfloor>real n / (- 8)\<rfloor> = 0"
    by (auto simp: ceiling_eq_iff)
  with True show ?thesis by (simp add: py_int_def)
next
  case False
  then have neg: "\<not> 0 \<le> real n / (- 8)" by simp
  have "\<lceil>real n / (- 8)\<rceil> = - \<lfloor>real n / 8\<rfloor>"
    by (simp add: ceiling_def)
  also have "\<lfloor>real n / 8\<rfloor> = int (n div 8)"
    using floor_divide_of_nat_eq [of n 8, where ?'a = real] by simp
  finally show ?thesis using neg by (simp add: py_int_def)
qed

lemma py_int_eighth': "py_int (- (real n / 8)) = - int (n div 8)"
  using py_int_eighth [of n] by simp

lemma slice_from_eighth:
  "slice_from DATA (py_int (real (length DATA) / (- 8))) =
     (if length DATA < 8 then DATA else drop (length DATA - length DATA div 8) DATA)"
proof (cases "length DATA < 8")
  case True
  then show ?thesis by (simp add: py_int_eighth' slice_from_def)
next
  case False
  then have "0 < length DATA div 8" by (simp add: div_greater_zero_iff)
  moreover have "length DATA div 8 \<le> length DATA" by simp
  ultimately have "nat (int (length DATA) - int (length DATA div 8)) = length DATA - length DATA div 8"
    by linarith
  with False \<open>0 < length DATA div 8\<close> show ?thesis
    by (simp add: py_int_eighth' slice_from_def)
qed

lemma sum_list_zero_slabs:
  "\<forall>s\<in>set a. s = (\<lambda>i. 0) \<Longrightarrow> (\<Sum>s\<leftarrow>a. s i) = (0::complex)"
  by (induction a) auto

lemma cmod_phase [simp]: "cmod (z * exp (\<i> * of_real r)) = cmod z"
  by (simp add: norm_mult flip: cis_conv_exp)

text \<open>
  Over exact complex numbers the manual phase factor \<open>exp(i (phase + ph1 x))\<close> has modulus
  1, so the absolute values of the result of \<open>LBfft\<close> do not depend on \<open>phase\<close> and \<open>ph1\<close>.
  This is a fact of exact arithmetic only: the floating-point results of the program
  differ by rounding, and a phase that overflows gives NaN.
\<close>

lemma LBfft_abs_phase_exact:
  "map_sum id np_abs (LBfft dwell0 LB zf (Some p) q DCoffset DATA) =
   map_sum id np_abs (LBfft dwell0 LB zf (Some 0) 0 DCoffset DATA)"
  unfolding LBfft_def Let_def np_abs_def
  by (simp del: of_real_add of_real_mult split: sum.split)


lemma DCoffset_estimate_eq:
  "DCoffset_estimate DATA =
     mean_axis0 (if length DATA < 8 then DATA else drop (length DATA - length DATA div 8) DATA)"
  unfolding DCoffset_estimate_def Let_def slice_from_eighth ..

text \<open>
  Claim C8. Without a DC offset from the caller, \<open>LBfft\<close> subtracts
  \<open>DCoffset_estimate DATA\<close>. For \<open>npts < 8\<close> the start \<open>int(npts / -8)\<close> of the slice is 0 and
  the estimate is the mean of all \<open>npts\<close> samples along the first axis; for \<open>npts \<ge> 8\<close> it
  is the mean of the last \<open>npts div 8\<close> samples.
\<close>

theorem DCoffset_estimate_slice:
  fixes DATA :: "'i::finite ndarray"
  shows "(length DATA < 8 \<longrightarrow>
            py_int (real (length DATA) / (- 8)) = 0 \<and> DCoffset_estimate DATA = mean_axis0 DATA)
       \<and> (8 \<le> length DATA \<longrightarrow>
            DCoffset_estimate DATA = mean_axis0 (drop (length DATA - length DATA div 8) DATA)
          \<and> length (drop (length DATA - length DATA div 8) DATA) = length DATA div 8)
       \<and> LBfft dwell0 LB zf phase ph1 None DATA =
           LBfft dwell0 LB zf phase ph1 (Some (\<lambda>k. DCoffset_estimate DATA)) DATA"
proof -
  have "py_int (real (length DATA) / (- 8)) = 0" if "length DATA < 8"
    using that unfolding py_int_eighth by simp
  moreover have "length (drop (length DATA - length DATA div 8) DATA) = length DATA div 8"
    by simp
  moreover have "LBfft dwell0 LB zf phase ph1 None DATA =
      LBfft dwell0 LB zf phase ph1 (Some (\<lambda>k. DCoffset_estimate DATA)) DATA"
    by (simp add: LBfft_def)
  ultimately show ?thesis
    by (simp add: DCoffset_estimate_eq)
qed

theorem DCoffset_estimate_slice_witness:
  "length [\<lambda>_::unit. 1, \<lambda>_. 2, \<lambda>_. 6 :: complex] < 8
   \<and> DCoffset_estimate [\<lambda>_::unit. 1, \<lambda>_. 2, \<lambda>_. 6] () = 3
   \<and> 8 \<le> length [\<lambda>_::unit. 1, \<lambda>_. 1, \<lambda>_. 1, \<lambda>_. 1, \<lambda>_. 1, \<lambda>_. 1, \<lambda>_. 1, \<lambda>_. 1, \<lambda>_. 4, \<lambda>_. 6 :: complex]
   \<and> DCoffset_estimate [\<lambda>_::unit. 1, \<lambda>_. 1, \<lambda>_. 1, \<lambda>_. 1, \<lambda>_. 1, \<lambda>_. 1, \<lambda>_. 1, \<lambda>_. 1, \<lambda>_. 4, \<lambda>_. 6] () = 6"
  using DCoffset_estimate_slice [of "[\<lambda>_::unit. 1, \<lambda>_. 2, \<lambda>_. 6]"]
    DCoffset_estimate_slice [of "[\<lambda>_::unit. 1, \<lambda>_. 1, \<lambda>_. 1, \<lambda>_. 1, \<lambda>_. 1, \<lambda>_. 1, \<lambda>_. 1, \<lambda>_. 1, \<lambda>_. 4, \<lambda>_. 6]"]
  by (simp add: mean_axis0_def)

lemma fft_impulse:
  assumes "0 < n" "length x = n" "x ! 0 = (\<lambda>i. 1)" "\<forall>t. 0 < t \<and> t < n \<longrightarrow> x ! t = (\<lambda>i. 0)"
  shows "fft x n = Inr (replicate n (\<lambda>i. 1))"
proof -
  have val: "(x ! t) i = (if t = 0 then 1 else 0)" if "t < n" for t i
    using that assms(3,4) by (cases "t = 0") auto
  have "(\<Sum>t<n. (x ! t) i * exp (- 2 * pi * \<i> * of_nat k * of_nat t / of_nat n)) = 1" for k i
  proof -
    have "(\<Sum>t<n. (x ! t) i * exp (- 2 * pi * \<i> * of_nat k * of_nat t / of_nat n))
            = (\<Sum>t<n. if t = 0 then 1 else 0)"
      by (rule sum.cong) (auto simp: val)
    also have "\<dots> = 1" using assms(1) by simp
    finally show ?thesis .
  qed
  then have "map (\<lambda>k. \<lambda>i. \<Sum>t<n. (x ! t) i * exp (- 2 * pi * \<i> * of_nat k * of_nat t / of_nat n)) [0..<n]
               = replicate n (\<lambda>i. 1)"
    by (simp add: map_replicate_const)
  with assms(1,2) show ?thesis by (simp add: fft_def)
qed

lemma fftshift_replicate: "fftshift (replicate n c) = replicate n c"
proof -
  have "replicate (n - (n - n div 2)) c @ replicate (n - n div 2) c = replicate n c"
    by (simp flip: replicate_add)
  then show ?thesis by (simp add: fftshift_def Let_def min_def)
qed

text \<open>
  Claim C4, amended. For an input of \<open>npts \<ge> 8\<close> points along the first axis, 1 at
  index 0 and 0 elsewhere, \<open>LBfft\<close> with \<open>LB = 0\<close>, \<open>zf = 0\<close>, \<open>phase = 0\<close>, \<open>ph1 = 0\<close> and no
  DC offset returns an array of the same shape whose elements all have the absolute
  value \<open>1 / sqrt npts\<close>.
\<close>

theorem LBfft_impulse:
  fixes DATA :: "'i::finite ndarray"
  assumes "8 \<le> length DATA" and "DATA ! 0 = (\<lambda>i. 1)"
    and "\<forall>k. 0 < k \<and> k < length DATA \<longrightarrow> DATA ! k = (\<lambda>i. 0)"
  shows "map_sum id np_abs (LBfft dwell0 0 0 (Some 0) 0 None DATA) =
           Inr (replicate (length DATA) (\<lambda>i. 1 / sqrt (real (length DATA))))"
proof -
  let ?n = "length DATA"
  have "\<forall>s\<in>set (drop (?n - ?n div 8) DATA). s = (\<lambda>i. 0)"
  proof
    fix s assume "s \<in> set (drop (?n - ?n div 8) DATA)"
    then obtain j where j: "j < ?n div 8" "s = DATA ! (?n - ?n div 8 + j)"
      by (auto simp: in_set_conv_nth)
    moreover have "?n div 8 < ?n" using assms(1) by simp
    ultimately have "0 < ?n - ?n div 8 + j" "?n - ?n div 8 + j < ?n" by linarith+
    with assms(3) j show "s = (\<lambda>i. 0)" by simp
  qed
  then have DC: "DCoffset_estimate DATA = (\<lambda>i. 0)"
    using assms(1) by (simp add: DCoffset_estimate_eq mean_axis0_def sum_list_zero_slabs)
  have lb: "map (\<lambda>k. \<lambda>i. ((DATA ! k) i - 0) * of_real (map (\<lambda>k. exp (0 * real k)) [0..<?n] ! k)) [0..<?n] = DATA"
    by (rule nth_equalityI) simp_all
  have F: "fft DATA ?n = Inr (replicate ?n (\<lambda>i. 1))"
    using assms by (intro fft_impulse) auto
  have ph: "map (\<lambda>k. \<lambda>i. (replicate ?n (\<lambda>i. 1 / of_real (sqrt (real ?n))) ! k) i * exp (\<i> * of_real (0 + 0 * (linspace (- 0.5) 0.5 ?n ! k)))) [0..<?n]
              = replicate ?n (\<lambda>i. 1 / complex_of_real (sqrt (real ?n)))"
    by (rule nth_equalityI) simp_all
  have "LBfft dwell0 0 0 (Some 0) 0 None DATA =
          Inr (replicate ?n (\<lambda>i. 1 / complex_of_real (sqrt (real ?n))))"
    using lb ph by (simp add: LBfft_def Let_def DC F fftshift_replicate)
  moreover have "np_abs (replicate ?n (\<lambda>i. 1 / complex_of_real (sqrt (real ?n)))) =
          replicate ?n (\<lambda>i. 1 / sqrt (real ?n))"
    by (simp add: np_abs_def norm_divide)
  ultimately show ?thesis by simp
qed

theorem LBfft_impulse_witness:
  "8 \<le> length ((\<lambda>i::unit. 1) # replicate 7 (\<lambda>i. 0 :: complex))
   \<and> ((\<lambda>i::unit. 1) # replicate 7 (\<lambda>i. 0 :: complex)) ! 0 = (\<lambda>i. 1)
   \<and> map_sum id np_abs (LBfft 1 0 0 (Some 0) 0 None ((\<lambda>i::unit. 1) # replicate 7 (\<lambda>i. 0))) =
       Inr (replicate 8 (\<lambda>i. 1 / sqrt 8))"
proof -
  let ?D = "(\<lambda>i::unit. 1) # replicate 7 (\<lambda>i. 0 :: complex)"
  have 1: "8 \<le> length ?D" by simp
  have 2: "?D ! 0 = (\<lambda>i. 1)" by simp
  have 3: "\<forall>k. 0 < k \<and> k < length ?D \<longrightarrow> ?D ! k = (\<lambda>i. 0)"
    by (auto simp: nth_Cons')
  show ?thesis
    using 1 2 LBfft_impulse [OF 1 2 3, of 1] by simp
qed

lemma fftshift4: "fftshift [a, b, c, d] = [c, d, a, b]"
  by (simp add: fftshift_def)

text \<open>
  Claim C4, as stated, fails for \<open>npts < 8\<close>: the DC estimate is then the mean of all
  samples, \<open>1 / npts\<close> for the impulse, and after its subtraction the samples add up
  to 0, which is the element of the result at zero frequency (index \<open>npts // 2\<close>). Here
  \<open>npts = 4\<close>.
\<close>

theorem LBfft_impulse_counterexample:
  "length [\<lambda>i::unit. 1 :: complex, \<lambda>i. 0, \<lambda>i. 0, \<lambda>i. 0] = 4
   \<and> \<not> isl (LBfft 1 0 0 (Some 0) 0 None [\<lambda>i::unit. 1, \<lambda>i. 0, \<lambda>i. 0, \<lambda>i. 0])
   \<and> length (projr (LBfft 1 0 0 (Some 0) 0 None [\<lambda>i::unit. 1, \<lambda>i. 0, \<lambda>i. 0, \<lambda>i. 0])) = 4
   \<and> (np_abs (projr (LBfft 1 0 0 (Some 0) 0 None [\<lambda>i::unit. 1, \<lambda>i. 0, \<lambda>i. 0, \<lambda>i. 0])) ! 2) () = 0
   \<and> (0 :: real) \<noteq> 1 / sqrt (real (length [\<lambda>i::unit. 1 :: complex, \<lambda>i. 0, \<lambda>i. 0, \<lambda>i. 0]))"
  by (simp add: LBfft_def DCoffset_estimate_eq mean_axis0_def fft_def fftshift4 np_abs_def
      Let_def eval_nat_numeral lessThan_Suc)

subsection \<open>The section table, the magic number and the delay tables\<close>

lemma section_body_Inr:
  assumes "section_body D decode hdr tntfile pos1 tbl = Inr (tbl', pos2)"
    and "length hdr = TLV_itemsize D"
  shows "\<exists>tag. decode (TLV_tag D hdr) = Inr tag \<and> 0 < TLV_itemsize D
           \<and> pos2 = pos1 + TLV_length D hdr
           \<and> (TLV_length D hdr \<le> 4096 \<longrightarrow>
                length (take (TLV_length D hdr) (drop pos1 tntfile)) = TLV_length D hdr)
           \<and> (\<forall>T. section_body D decode hdr tntfile pos1 T =
                 Inr (AList.update tag
                   \<lparr>h_offset = pos1, h_length = TLV_length D hdr, h_bool = TLV_bool D hdr,
                    h_data = (if TLV_length D hdr \<le> 4096
                              then Some (take (TLV_length D hdr) (drop pos1 tntfile)) else None)\<rparr>
                   T, pos2))"
  using assms
  by (auto simp: section_body_def frombuffer_def fread_def Let_def
      split: if_splits sum.splits prod.splits)

lemma section_body_Inl:
  "section_body D decode hdr tntfile pos1 tbl = Inl e \<Longrightarrow>
   section_body D decode hdr tntfile pos1 T = Inl e"
  by (auto simp: section_body_def frombuffer_def fread_def Let_def
      split: if_splits sum.splits prod.splits)


lemma fread_full:
  assumes "fread tntfile n pos = (hdr, pos1)" and "n = length hdr"
  shows "hdr = take n (drop pos tntfile)" "pos1 = pos + n" "0 < n \<longrightarrow> pos + n \<le> length tntfile"
proof -
  from assms(1) show hdr: "hdr = take n (drop pos tntfile)"
    by (auto simp: fread_def)
  from assms(1) have "pos1 = pos + length hdr" by (auto simp: fread_def)
  with assms(2) show "pos1 = pos + n" by simp
  from arg_cong [OF hdr, of length] assms(2) have "n \<le> length tntfile - pos" by simp
  then show "0 < n \<longrightarrow> pos + n \<le> length tntfile" by linarith
qed

lemma set_update_cases:
  "(k', v') \<in> set (AList.update k v al) \<Longrightarrow> (k', v') = (k, v) \<or> (k', v') \<in> set al"
  by (induction al) (auto split: if_splits)

lemma read_sections_entries:
  "read_sections D decode tntfile pos tbl0 = Inr (tbl, pos') \<Longrightarrow> (tag, h) \<in> set tbl \<Longrightarrow>
   (tag, h) \<in> set tbl0 \<or>
   (TLV_itemsize D \<le> h_offset h \<and> h_offset h \<le> length tntfile
    \<and> decode (TLV_tag D (take (TLV_itemsize D) (drop (h_offset h - TLV_itemsize D) tntfile))) = Inr tag
    \<and> h_length h = TLV_length D (take (TLV_itemsize D) (drop (h_offset h - TLV_itemsize D) tntfile))
    \<and> h_bool h = TLV_bool D (take (TLV_itemsize D) (drop (h_offset h - TLV_itemsize D) tntfile))
    \<and> h_data h = (if h_length h \<le> 4096 then Some (take (h_length h) (drop (h_offset h) tntfile))
                  else None)
    \<and> (h_length h \<le> 4096 \<longrightarrow> h_offset h + h_length h \<le> length tntfile))"
proof (induction D decode tntfile pos tbl0 rule: read_sections.induct)
  case (1 D decode tntfile pos tbl0)
  obtain hdr pos1 where rd: "fread tntfile (TLV_itemsize D) pos = (hdr, pos1)"
    by (cases "fread tntfile (TLV_itemsize D) pos")
  show ?case
  proof (cases "TLV_itemsize D = length hdr")
    case False
    with "1.prems" rd show ?thesis
      by (simp add: read_sections.simps [of D decode tntfile pos tbl0])
  next
    case full: True
    note hdr = fread_full [OF rd full]
    from "1.prems"(1) rd full obtain tbl' pos2
      where body: "section_body D decode hdr tntfile pos1 tbl0 = Inr (tbl', pos2)"
        and rest: "read_sections D decode tntfile pos2 tbl' = Inr (tbl, pos')"
      by (auto simp: read_sections.simps [of D decode tntfile pos tbl0] split: sum.splits)
    from section_body_Inr [OF body full [symmetric]] obtain t
      where t: "decode (TLV_tag D hdr) = Inr t" "0 < TLV_itemsize D"
        "TLV_length D hdr \<le> 4096 \<longrightarrow>
           length (take (TLV_length D hdr) (drop pos1 tntfile)) = TLV_length D hdr"
        and tbl': "tbl' = AList.update t
             \<lparr>h_offset = pos1, h_length = TLV_length D hdr, h_bool = TLV_bool D hdr,
              h_data = (if TLV_length D hdr \<le> 4096
                        then Some (take (TLV_length D hdr) (drop pos1 tntfile)) else None)\<rparr> tbl0"
      using body by auto
    from "1.IH" [OF rd [symmetric] full body refl rest "1.prems"(2)]
    consider "(tag, h) \<in> set tbl'" | "?thesis" by blast
    then show ?thesis
    proof cases
      case 1
      with tbl' set_update_cases [of tag h t _ tbl0]
      consider "(tag, h) \<in> set tbl0"
        | "tag = t" "h = \<lparr>h_offset = pos1, h_length = TLV_length D hdr, h_bool = TLV_bool D hdr,
              h_data = (if TLV_length D hdr \<le> 4096
                        then Some (take (TLV_length D hdr) (drop pos1 tntfile)) else None)\<rparr>"
        by blast
      then show ?thesis
      proof cases
        case 1
        then show ?thesis by simp
      next
        case 2
        have "take (TLV_itemsize D) (drop (pos1 - TLV_itemsize D) tntfile) = hdr"
          using hdr by simp
        moreover have "TLV_length D hdr \<le> 4096 \<longrightarrow> pos1 + TLV_length D hdr \<le> length tntfile"
          using t(2,3) hdr by (cases "TLV_length D hdr = 0") auto
        ultimately show ?thesis
          using 2 t hdr by simp
      qed
    next
      case 2
      then show ?thesis .
    qed
  qed
qed

lemma read_sections_distinct:
  "read_sections D decode tntfile pos tbl0 = Inr (tbl, pos') \<Longrightarrow> distinct (map fst tbl0) \<Longrightarrow>
   distinct (map fst tbl)"
proof (induction D decode tntfile pos tbl0 rule: read_sections.induct)
  case (1 D decode tntfile pos tbl0)
  obtain hdr pos1 where rd: "fread tntfile (TLV_itemsize D) pos = (hdr, pos1)"
    by (cases "fread tntfile (TLV_itemsize D) pos")
  show ?case
  proof (cases "TLV_itemsize D = length hdr")
    case False
    with "1.prems" rd show ?thesis
      by (simp add: read_sections.simps [of D decode tntfile pos tbl0])
  next
    case full: True
    from "1.prems"(1) rd full obtain tbl' pos2
      where body: "section_body D decode hdr tntfile pos1 tbl0 = Inr (tbl', pos2)"
        and rest: "read_sections D decode tntfile pos2 tbl' = Inr (tbl, pos')"
      by (auto simp: read_sections.simps [of D decode tntfile pos tbl0] split: sum.splits)
    from section_body_Inr [OF body full [symmetric]] body "1.prems"(2)
    have "distinct (map fst tbl')"
      by (auto simp: distinct_update)
    from "1.IH" [OF rd [symmetric] full body refl rest this] show ?thesis .
  qed
qed

lemma read_sections_tables:
  "rel_sum (=) (\<lambda>(a, p) (b, q). p = q \<and> (\<exists>M. map_of a = map_of T ++ M \<and> map_of b = map_of T' ++ M))
     (read_sections D decode tntfile pos T) (read_sections D decode tntfile pos T')"
proof (induction D decode tntfile pos T arbitrary: T' rule: read_sections.induct)
  case (1 D decode tntfile pos T)
  obtain hdr pos1 where rd: "fread tntfile (TLV_itemsize D) pos = (hdr, pos1)"
    by (cases "fread tntfile (TLV_itemsize D) pos")
  show ?case
  proof (cases "TLV_itemsize D = length hdr")
    case False
    have "map_of T = map_of T ++ Map.empty \<and> map_of T' = map_of T' ++ Map.empty" by simp
    then have "\<exists>M. map_of T = map_of T ++ M \<and> map_of T' = map_of T' ++ M" by blast
    with False rd show ?thesis
      by (simp add: read_sections.simps [of D decode tntfile pos])
  next
    case full: True
    show ?thesis
    proof (cases "section_body D decode hdr tntfile pos1 T")
      case (Inl e)
      from section_body_Inl [OF this] Inl rd full show ?thesis
        by (simp add: read_sections.simps [of D decode tntfile pos])
    next
      case (Inr r)
      obtain tbl' pos2 where r: "r = (tbl', pos2)" by (cases r)
      from section_body_Inr [OF Inr [unfolded r] full [symmetric]] obtain t e
        where step: "\<And>U. section_body D decode hdr tntfile pos1 U = Inr (AList.update t e U, pos2)"
        by blast
      from Inr r step [of T] have tbl': "tbl' = AList.update t e T" by simp
      have IH: "rel_sum (=) (\<lambda>(a, p) (b, q). p = q \<and>
                   (\<exists>M. map_of a = map_of tbl' ++ M \<and> map_of b = map_of (AList.update t e T') ++ M))
                 (read_sections D decode tntfile pos2 tbl')
                 (read_sections D decode tntfile pos2 (AList.update t e T'))"
        by (rule "1.IH" [OF rd [symmetric] full Inr [unfolded r] refl])
      have weaken: "\<exists>M. map_of a = map_of T ++ M \<and> map_of b = map_of T' ++ M"
        if "\<exists>M. map_of a = map_of tbl' ++ M \<and> map_of b = map_of (AList.update t e T') ++ M"
        for a b :: sections
      proof -
        from that obtain M where M: "map_of a = map_of tbl' ++ M"
          "map_of b = map_of (AList.update t e T') ++ M" by blast
        have "map_of a = map_of T ++ ([t \<mapsto> e] ++ M)"
          unfolding M tbl' by (simp add: update_conv' map_add_upd_left fun_eq_iff map_add_def split: option.splits)
        moreover have "map_of b = map_of T' ++ ([t \<mapsto> e] ++ M)"
          unfolding M by (simp add: update_conv' fun_eq_iff map_add_def split: option.splits)
        ultimately show ?thesis by blast
      qed
      let ?L = "read_sections D decode tntfile pos2 tbl'"
      let ?R = "read_sections D decode tntfile pos2 (AList.update t e T')"
      have eq: "read_sections D decode tntfile pos T = ?L"
        "read_sections D decode tntfile pos T' = ?R"
        using rd full Inr r step [of T']
        by (simp_all add: read_sections.simps [of D decode tntfile pos])
      show ?thesis
      proof (cases ?L)
        case (Inl err)
        with IH show ?thesis by (cases ?R) (auto simp: eq)
      next
        case L: (Inr x)
        with IH obtain y where R: "?R = Inr y" by (cases ?R) auto
        obtain a p b q where xy: "x = (a, p)" "y = (b, q)" by (cases x, cases y)
        from IH L R xy have pq: "p = q"
          and "\<exists>M. map_of a = map_of tbl' ++ M \<and> map_of b = map_of (AList.update t e T') ++ M"
          by auto
        from weaken [OF this(2)] pq L R xy show ?thesis by (simp add: eq)
      qed
    qed
  qed
qed

lemma read_sections_invariants:
  "(read_sections D decode tntfile pos [] = Inr (tbl, pos') \<longrightarrow>
      distinct (map fst tbl)
    \<and> (\<forall>(tag, h)\<in>set tbl.
          (h_data h \<noteq> None \<longleftrightarrow> h_length h \<le> 4096)
        \<and> (\<forall>d. h_data h = Some d \<longrightarrow>
               length d = h_length h \<and> d = take (h_length h) (drop (h_offset h) tntfile))
        \<and> TLV_itemsize D \<le> h_offset h \<and> h_offset h \<le> length tntfile
        \<and> decode (TLV_tag D (take (TLV_itemsize D) (drop (h_offset h - TLV_itemsize D) tntfile)))
            = Inr tag
        \<and> h_length h
            = TLV_length D (take (TLV_itemsize D) (drop (h_offset h - TLV_itemsize D) tntfile))))
   \<and> (length (fst (fread tntfile (TLV_itemsize D) pos)) \<noteq> TLV_itemsize D \<longrightarrow>
        read_sections D decode tntfile pos tbl0 =
          Inr (tbl0, snd (fread tntfile (TLV_itemsize D) pos)))
   \<and> (read_sections D decode tntfile pos tbl0 = Inr (tbl2, pos2) \<longrightarrow>
        (\<exists>tbl1. read_sections D decode tntfile pos [] = Inr (tbl1, pos2)
              \<and> map_of tbl2 = map_of tbl0 ++ map_of tbl1))"
proof (intro conjI impI)
  assume run: "read_sections D decode tntfile pos [] = Inr (tbl, pos')"
  then show "distinct (map fst tbl)"
    by (rule read_sections_distinct) simp
  show "\<forall>(tag, h)\<in>set tbl.
          (h_data h \<noteq> None \<longleftrightarrow> h_length h \<le> 4096)
        \<and> (\<forall>d. h_data h = Some d \<longrightarrow>
               length d = h_length h \<and> d = take (h_length h) (drop (h_offset h) tntfile))
        \<and> TLV_itemsize D \<le> h_offset h \<and> h_offset h \<le> length tntfile
        \<and> decode (TLV_tag D (take (TLV_itemsize D) (drop (h_offset h - TLV_itemsize D) tntfile)))
            = Inr tag
        \<and> h_length h
            = TLV_length D (take (TLV_itemsize D) (drop (h_offset h - TLV_itemsize D) tntfile))"
  proof (clarify, goal_cases)
    case (1 tag h)
    have "(tag, h) \<notin> set []" by simp
    with read_sections_entries [OF run 1]
    have e: "TLV_itemsize D \<le> h_offset h" "h_offset h \<le> length tntfile"
      "decode (TLV_tag D (take (TLV_itemsize D) (drop (h_offset h - TLV_itemsize D) tntfile))) = Inr tag"
      "h_length h = TLV_length D (take (TLV_itemsize D) (drop (h_offset h - TLV_itemsize D) tntfile))"
      "h_data h = (if h_length h \<le> 4096 then Some (take (h_length h) (drop (h_offset h) tntfile))
                  else None)"
      "h_length h \<le> 4096 \<longrightarrow> h_offset h + h_length h \<le> length tntfile"
      by blast+
    from e(5,6) have "(h_data h \<noteq> None) = (h_length h \<le> 4096)"
      and "\<forall>d. h_data h = Some d \<longrightarrow>
             length d = h_length h \<and> d = take (h_length h) (drop (h_offset h) tntfile)"
      by (auto split: if_splits)
    with e(1-4) show ?case by blast
  qed
next
  assume "length (fst (fread tntfile (TLV_itemsize D) pos)) \<noteq> TLV_itemsize D"
  then show "read_sections D decode tntfile pos tbl0 =
          Inr (tbl0, snd (fread tntfile (TLV_itemsize D) pos))"
    by (cases "fread tntfile (TLV_itemsize D) pos")
      (auto simp: read_sections.simps [of D decode tntfile pos tbl0])
next
  assume run: "read_sections D decode tntfile pos tbl0 = Inr (tbl2, pos2)"
  from read_sections_tables [of tbl0 "[]" D decode tntfile pos] run
  show "\<exists>tbl1. read_sections D decode tntfile pos [] = Inr (tbl1, pos2)
              \<and> map_of tbl2 = map_of tbl0 ++ map_of tbl1"
    by (cases "read_sections D decode tntfile pos []") auto
qed

lemma read_sections_step:
  assumes "0 < TLV_itemsize D" and "pos + TLV_itemsize D \<le> length tntfile"
    and "hdr = take (TLV_itemsize D) (drop pos tntfile)"
    and "decode (TLV_tag D hdr) = Inr tag"
    and "TLV_length D hdr \<le> 4096 \<longrightarrow>
           pos + TLV_itemsize D + TLV_length D hdr \<le> length tntfile"
  shows "read_sections D decode tntfile pos tbl0 =
           read_sections D decode tntfile (pos + TLV_itemsize D + TLV_length D hdr)
             (AList.update tag
                \<lparr>h_offset = pos + TLV_itemsize D, h_length = TLV_length D hdr,
                 h_bool = TLV_bool D hdr,
                 h_data = (if TLV_length D hdr \<le> 4096
                           then Some (take (TLV_length D hdr) (drop (pos + TLV_itemsize D) tntfile))
                           else None)\<rparr>
                tbl0)"
proof -
  have len: "length hdr = TLV_itemsize D"
    using assms(2,3) by simp
  have rd: "fread tntfile (TLV_itemsize D) pos = (hdr, pos + TLV_itemsize D)"
    using len assms(3) by (simp add: fread_def)
  have fb: "frombuffer (TLV_itemsize D) hdr = Inr hdr"
    using len assms(1) by (simp add: frombuffer_def)
  have body: "section_body D decode hdr tntfile (pos + TLV_itemsize D) tbl0 =
      Inr (AList.update tag
                \<lparr>h_offset = pos + TLV_itemsize D, h_length = TLV_length D hdr,
                 h_bool = TLV_bool D hdr,
                 h_data = (if TLV_length D hdr \<le> 4096
                           then Some (take (TLV_length D hdr) (drop (pos + TLV_itemsize D) tntfile))
                           else None)\<rparr>
                tbl0, pos + TLV_itemsize D + TLV_length D hdr)"
    using assms(4,5) by (auto simp: section_body_def fb fread_def Let_def)
  show ?thesis
    by (subst read_sections.simps) (simp add: rd len body)
qed

lemma read_sections_recorded:
  assumes step: "read_sections D decode tntfile pos [] =
                   read_sections D decode tntfile pos2 (AList.update tag entry [])"
    and tail: "read_sections D decode tntfile pos2 [] = Inr (tbl1, p)"
  shows "\<exists>tbl'. read_sections D decode tntfile pos [] = Inr (tbl', p)
           \<and> map_of tbl' tag = (case map_of tbl1 tag of None \<Rightarrow> Some entry | Some later \<Rightarrow> Some later)
           \<and> (\<forall>t. t \<noteq> tag \<longrightarrow> map_of tbl' t = map_of tbl1 t)"
proof -
  from read_sections_tables [of "[(tag, entry)]" "[]" D decode tntfile pos2] tail
  obtain tbl' where run: "read_sections D decode tntfile pos2 [(tag, entry)] = Inr (tbl', p)"
    and m: "map_of tbl' = map_of [(tag, entry)] ++ map_of tbl1"
    by (cases "read_sections D decode tntfile pos2 [(tag, entry)]") auto
  from m have "map_of tbl' tag = (case map_of tbl1 tag of None \<Rightarrow> Some entry | Some later \<Rightarrow> Some later)"
    and "\<forall>t. t \<noteq> tag \<longrightarrow> map_of tbl' t = map_of tbl1 t"
    by (auto simp: map_add_def split: option.splits)
  with step run show ?thesis by simp
qed


lemma read_sections_short_payload:
  assumes "0 < TLV_itemsize D" and "pos + TLV_itemsize D \<le> length tntfile"
    and "hdr = take (TLV_itemsize D) (drop pos tntfile)"
    and "TLV_length D hdr \<le> 4096"
    and "length tntfile < pos + TLV_itemsize D + TLV_length D hdr"
  shows "read_sections D decode tntfile pos tbl0 = Inl AssertionError"
proof -
  have len: "length hdr = TLV_itemsize D"
    using assms(2,3) by simp
  have rd: "fread tntfile (TLV_itemsize D) pos = (hdr, pos + TLV_itemsize D)"
    using len assms(3) by (simp add: fread_def)
  have fb: "frombuffer (TLV_itemsize D) hdr = Inr hdr"
    using len assms(1) by (simp add: frombuffer_def)
  have body: "section_body D decode hdr tntfile (pos + TLV_itemsize D) tbl0 = Inl AssertionError"
    using assms(2,4,5) by (auto simp: section_body_def fb fread_def Let_def min_def)
  show ?thesis
    by (subst read_sections.simps) (simp add: rd len body)
qed

text \<open>
  Claim C7. In the section table that \<open>read_sections\<close> builds from the empty table, the
  tags are distinct and every entry has a buffer exactly when its length is at most 4096;
  the buffer holds exactly \<open>length\<close> bytes, those of the file at \<open>offset\<close>; and every entry,
  also one above the threshold, records the offset and the length of a header of the
  file (the header that ends at \<open>offset\<close>). A short read of a header ends the loop with
  the table as it is, without an exception. Entries that are in the table before are
  overridden by the entries of the headers read afterwards.

  Every header that is read is recorded: where a complete header stands at \<open>pos\<close>, its tag
  decodes to \<open>key\<close> and a payload of at most 4096 bytes is there in full, the loop goes on
  behind the payload with the table in which \<open>key\<close> is assigned the entry of this header
  (its offset, length and flag, and the payload, or no buffer above the threshold). So in
  the table of the whole run \<open>key\<close> has the entry of a later header with the same tag if
  there is one, and the entry of this header otherwise; the other tags are as the later
  headers leave them. A payload of at most 4096 bytes that the file does not hold in
  full fails the assertion.
\<close>

theorem read_sections_table:
  "(read_sections D decode tntfile pos [] = Inr (tbl, pos') \<longrightarrow>
      distinct (map fst tbl)
    \<and> (\<forall>(tag, h)\<in>set tbl.
          (h_data h \<noteq> None \<longleftrightarrow> h_length h \<le> 4096)
        \<and> (\<forall>d. h_data h = Some d \<longrightarrow>
               length d = h_length h \<and> d = take (h_length h) (drop (h_offset h) tntfile))
        \<and> TLV_itemsize D \<le> h_offset h \<and> h_offset h \<le> length tntfile
        \<and> decode (TLV_tag D (take (TLV_itemsize D) (drop (h_offset h - TLV_itemsize D) tntfile)))
            = Inr tag
        \<and> h_length h
            = TLV_length D (take (TLV_itemsize D) (drop (h_offset h - TLV_itemsize D) tntfile))))
   \<and> (length (fst (fread tntfile (TLV_itemsize D) pos)) \<noteq> TLV_itemsize D \<longrightarrow>
        read_sections D decode tntfile pos tbl0 =
          Inr (tbl0, snd (fread tntfile (TLV_itemsize D) pos)))
   \<and> (read_sections D decode tntfile pos tbl0 = Inr (tbl2, pos2) \<longrightarrow>
        (\<exists>tbl1. read_sections D decode tntfile pos [] = Inr (tbl1, pos2)
              \<and> map_of tbl2 = map_of tbl0 ++ map_of tbl1))
   \<and> (0 < TLV_itemsize D \<and> pos + TLV_itemsize D \<le> length tntfile
        \<and> hdr = take (TLV_itemsize D) (drop pos tntfile)
        \<and> decode (TLV_tag D hdr) = Inr key
        \<and> (TLV_length D hdr \<le> 4096 \<longrightarrow>
              pos + TLV_itemsize D + TLV_length D hdr \<le> length tntfile)
        \<and> entry = \<lparr>h_offset = pos + TLV_itemsize D, h_length = TLV_length D hdr,
                    h_bool = TLV_bool D hdr,
                    h_data = (if TLV_length D hdr \<le> 4096
                              then Some (take (TLV_length D hdr)
                                           (drop (pos + TLV_itemsize D) tntfile))
                              else None)\<rparr>
        \<longrightarrow>
          read_sections D decode tntfile pos tbl0 =
            read_sections D decode tntfile (pos + TLV_itemsize D + TLV_length D hdr)
              (AList.update key entry tbl0)
        \<and> (\<forall>later_tbl end_pos.
              read_sections D decode tntfile (pos + TLV_itemsize D + TLV_length D hdr) []
                = Inr (later_tbl, end_pos) \<longrightarrow>
              (\<exists>whole_tbl.
                  read_sections D decode tntfile pos [] = Inr (whole_tbl, end_pos)
                \<and> map_of whole_tbl key =
                    (case map_of later_tbl key of
                       None \<Rightarrow> Some entry
                     | Some later \<Rightarrow> Some later)
                \<and> (\<forall>t. t \<noteq> key \<longrightarrow> map_of whole_tbl t = map_of later_tbl t))))
   \<and> (0 < TLV_itemsize D \<and> pos + TLV_itemsize D \<le> length tntfile
        \<and> TLV_length D (take (TLV_itemsize D) (drop pos tntfile)) \<le> 4096
        \<and> length tntfile
             < pos + TLV_itemsize D + TLV_length D (take (TLV_itemsize D) (drop pos tntfile))
        \<longrightarrow> read_sections D decode tntfile pos tbl0 = Inl AssertionError)"
proof -
  note old = read_sections_invariants [of D decode tntfile pos tbl pos' tbl0 tbl2 pos2]
  have step: "0 < TLV_itemsize D \<and> pos + TLV_itemsize D \<le> length tntfile
        \<and> hdr = take (TLV_itemsize D) (drop pos tntfile)
        \<and> decode (TLV_tag D hdr) = Inr key
        \<and> (TLV_length D hdr \<le> 4096 \<longrightarrow>
              pos + TLV_itemsize D + TLV_length D hdr \<le> length tntfile)
        \<and> entry = \<lparr>h_offset = pos + TLV_itemsize D, h_length = TLV_length D hdr,
                    h_bool = TLV_bool D hdr,
                    h_data = (if TLV_length D hdr \<le> 4096
                              then Some (take (TLV_length D hdr)
                                           (drop (pos + TLV_itemsize D) tntfile))
                              else None)\<rparr>
        \<longrightarrow>
          read_sections D decode tntfile pos tbl0 =
            read_sections D decode tntfile (pos + TLV_itemsize D + TLV_length D hdr)
              (AList.update key entry tbl0)
        \<and> (\<forall>later_tbl end_pos.
              read_sections D decode tntfile (pos + TLV_itemsize D + TLV_length D hdr) []
                = Inr (later_tbl, end_pos) \<longrightarrow>
              (\<exists>whole_tbl.
                  read_sections D decode tntfile pos [] = Inr (whole_tbl, end_pos)
                \<and> map_of whole_tbl key =
                    (case map_of later_tbl key of
                       None \<Rightarrow> Some entry
                     | Some later \<Rightarrow> Some later)
                \<and> (\<forall>t. t \<noteq> key \<longrightarrow> map_of whole_tbl t = map_of later_tbl t)))"
  proof (intro impI, elim conjE)
    assume a: "0 < TLV_itemsize D" "pos + TLV_itemsize D \<le> length tntfile"
      "hdr = take (TLV_itemsize D) (drop pos tntfile)" "decode (TLV_tag D hdr) = Inr key"
      "TLV_length D hdr \<le> 4096 \<longrightarrow> pos + TLV_itemsize D + TLV_length D hdr \<le> length tntfile"
      and e: "entry = \<lparr>h_offset = pos + TLV_itemsize D, h_length = TLV_length D hdr,
                    h_bool = TLV_bool D hdr,
                    h_data = (if TLV_length D hdr \<le> 4096
                              then Some (take (TLV_length D hdr)
                                           (drop (pos + TLV_itemsize D) tntfile))
                              else None)\<rparr>"
    have eq: "read_sections D decode tntfile pos T =
            read_sections D decode tntfile (pos + TLV_itemsize D + TLV_length D hdr)
              (AList.update key entry T)" for T
      unfolding e by (rule read_sections_step [where decode = decode, OF a])
    from read_sections_recorded [OF eq [of "[]"]] eq [of tbl0]
    show "read_sections D decode tntfile pos tbl0 =
            read_sections D decode tntfile (pos + TLV_itemsize D + TLV_length D hdr)
              (AList.update key entry tbl0)
        \<and> (\<forall>later_tbl end_pos.
              read_sections D decode tntfile (pos + TLV_itemsize D + TLV_length D hdr) []
                = Inr (later_tbl, end_pos) \<longrightarrow>
              (\<exists>whole_tbl.
                  read_sections D decode tntfile pos [] = Inr (whole_tbl, end_pos)
                \<and> map_of whole_tbl key =
                    (case map_of later_tbl key of
                       None \<Rightarrow> Some entry
                     | Some later \<Rightarrow> Some later)
                \<and> (\<forall>t. t \<noteq> key \<longrightarrow> map_of whole_tbl t = map_of later_tbl t)))"
      by blast
  qed
  have short: "0 < TLV_itemsize D \<and> pos + TLV_itemsize D \<le> length tntfile
        \<and> TLV_length D (take (TLV_itemsize D) (drop pos tntfile)) \<le> 4096
        \<and> length tntfile
             < pos + TLV_itemsize D + TLV_length D (take (TLV_itemsize D) (drop pos tntfile))
        \<longrightarrow> read_sections D decode tntfile pos tbl0 = Inl AssertionError"
    using read_sections_short_payload [OF _ _ refl, of D pos tntfile decode tbl0] by blast
  show ?thesis
    by (intro conjI)
      (rule old [THEN conjunct1], rule old [THEN conjunct2, THEN conjunct1],
       rule old [THEN conjunct2, THEN conjunct2], rule step, rule short)
qed


theorem read_sections_table_witness:
  "read_sections example_dtypes decode_ascii
     (''TMAG'' @ [CHR 0x01, CHR 0x00, CHR 0x00, CHR 0x00, CHR 0x02, CHR 0x00, CHR 0x00, CHR 0x00] @ ''ab''
      @ ''TMAG'' @ [CHR 0x00, CHR 0x00, CHR 0x00, CHR 0x00, CHR 0x01, CHR 0x00, CHR 0x00, CHR 0x00] @ ''c''
      @ ''DATA'' @ [CHR 0x00, CHR 0x00, CHR 0x00, CHR 0x00, CHR 0x01, CHR 0x10, CHR 0x00, CHR 0x00] @ ''xy'')
     0 []
   = Inr ([(''TMAG'', \<lparr>h_offset = 26, h_length = 1, h_bool = False, h_data = Some ''c''\<rparr>),
           (''DATA'', \<lparr>h_offset = 39, h_length = 4097, h_bool = False, h_data = None\<rparr>)], 4136)
   \<and> distinct (map fst
        [(''TMAG'', \<lparr>h_offset = 26, h_length = 1, h_bool = False, h_data = Some ''c''\<rparr>),
         (''DATA'', \<lparr>h_offset = 39, h_length = 4097, h_bool = False, h_data = None\<rparr>)])
   \<and> length (fst (fread ''TMAGxy'' (TLV_itemsize example_dtypes) 0)) \<noteq> TLV_itemsize example_dtypes
   \<and> read_sections example_dtypes decode_ascii ''TMAGxy'' 0 [] = Inr ([], 6)
   \<and> read_sections example_dtypes decode_ascii
        (''TMAG'' @ [CHR 0x01, CHR 0x00, CHR 0x00, CHR 0x00, CHR 0x02, CHR 0x00, CHR 0x00, CHR 0x00] @ ''ab''
         @ ''TMAG'' @ [CHR 0x00, CHR 0x00, CHR 0x00, CHR 0x00, CHR 0x01, CHR 0x00, CHR 0x00, CHR 0x00] @ ''c''
         @ ''DATA'' @ [CHR 0x00, CHR 0x00, CHR 0x00, CHR 0x00, CHR 0x01, CHR 0x10, CHR 0x00, CHR 0x00] @ ''xy'')
        14 []
       = Inr ([(''TMAG'', \<lparr>h_offset = 26, h_length = 1, h_bool = False, h_data = Some ''c''\<rparr>),
               (''DATA'', \<lparr>h_offset = 39, h_length = 4097, h_bool = False, h_data = None\<rparr>)], 4136)
   \<and> map_of
        [(''TMAG'', \<lparr>h_offset = 26, h_length = 1, h_bool = False, h_data = Some ''c''\<rparr>),
         (''DATA'', \<lparr>h_offset = 39, h_length = 4097, h_bool = False, h_data = None\<rparr>)] ''TMAG''
       = Some \<lparr>h_offset = 26, h_length = 1, h_bool = False, h_data = Some ''c''\<rparr>
   \<and> read_sections example_dtypes decode_ascii
        (''TMAG'' @ [CHR 0x01, CHR 0x00, CHR 0x00, CHR 0x00, CHR 0x02, CHR 0x00, CHR 0x00, CHR 0x00] @ ''ab''
         @ ''TMAG'' @ [CHR 0x00, CHR 0x00, CHR 0x00, CHR 0x00, CHR 0x01, CHR 0x00, CHR 0x00, CHR 0x00] @ ''c''
         @ ''DATA'' @ [CHR 0x00, CHR 0x00, CHR 0x00, CHR 0x00, CHR 0x01, CHR 0x10, CHR 0x00, CHR 0x00] @ ''xy'')
        4136 []
       = Inr ([], 4136)
   \<and> read_sections example_dtypes decode_ascii
        (''TMAG'' @ [CHR 0x01, CHR 0x00, CHR 0x00, CHR 0x00, CHR 0x02, CHR 0x00, CHR 0x00, CHR 0x00] @ ''ab''
         @ ''TMAG'' @ [CHR 0x00, CHR 0x00, CHR 0x00, CHR 0x00, CHR 0x01, CHR 0x00, CHR 0x00, CHR 0x00] @ ''c''
         @ ''DATA'' @ [CHR 0x00, CHR 0x00, CHR 0x00, CHR 0x00, CHR 0x01, CHR 0x10, CHR 0x00, CHR 0x00] @ ''xy'')
        27 []
       = Inr ([(''DATA'', \<lparr>h_offset = 39, h_length = 4097, h_bool = False, h_data = None\<rparr>)], 4136)
   \<and> map_of [(''DATA'', \<lparr>h_offset = 39, h_length = 4097, h_bool = False, h_data = None\<rparr>)] ''DATA''
       = Some \<lparr>h_offset = 39, h_length = 4097, h_bool = False, h_data = None\<rparr>
   \<and> read_sections example_dtypes decode_ascii
        (''TMAG'' @ [CHR 0x00, CHR 0x00, CHR 0x00, CHR 0x00, CHR 0x05, CHR 0x00, CHR 0x00, CHR 0x00] @ ''ab'')
        0 []
       = Inl AssertionError"
proof -
  let ?f = "''TMAG'' @ [CHR 0x01, CHR 0x00, CHR 0x00, CHR 0x00, CHR 0x02, CHR 0x00, CHR 0x00, CHR 0x00] @ ''ab''
      @ ''TMAG'' @ [CHR 0x00, CHR 0x00, CHR 0x00, CHR 0x00, CHR 0x01, CHR 0x00, CHR 0x00, CHR 0x00] @ ''c''
      @ ''DATA'' @ [CHR 0x00, CHR 0x00, CHR 0x00, CHR 0x00, CHR 0x01, CHR 0x10, CHR 0x00, CHR 0x00] @ ''xy''"
  let ?g = "''TMAG'' @ [CHR 0x00, CHR 0x00, CHR 0x00, CHR 0x00, CHR 0x05, CHR 0x00, CHR 0x00, CHR 0x00] @ ''ab''"
  let ?e2 = "\<lparr>h_offset = 26, h_length = 1, h_bool = False, h_data = Some ''c''\<rparr>"
  let ?eD = "\<lparr>h_offset = 39, h_length = 4097, h_bool = False, h_data = None\<rparr>"
  let ?tbl = "[(''TMAG'', ?e2), (''DATA'', ?eD)]"
  note ev = read_sections.simps fread_def section_body_def frombuffer_def
    example_dtypes_def decode_ascii_def
  have run: "read_sections example_dtypes decode_ascii ?f 0 [] = Inr (?tbl, 4136)"
    by (simp add: ev)
  have later: "read_sections example_dtypes decode_ascii ?f 14 [] = Inr (?tbl, 4136)"
    by (simp add: ev)
  have from27: "read_sections example_dtypes decode_ascii ?f 27 [] = Inr ([(''DATA'', ?eD)], 4136)"
    by (simp add: ev)
  have last: "read_sections example_dtypes decode_ascii ?f 4136 [] = Inr ([], 4136)"
    by (simp add: ev)
  have short: "length (fst (fread ''TMAGxy'' (TLV_itemsize example_dtypes) 0))
                 \<noteq> TLV_itemsize example_dtypes"
    by (simp add: fread_def example_dtypes_def)
  from read_sections_table [where D = example_dtypes and decode = decode_ascii
      and tntfile = ?f and pos = 0 and tbl = ?tbl and pos' = 4136] run
  have d: "distinct (map fst ?tbl)" by blast
  from read_sections_table [where D = example_dtypes and decode = decode_ascii
      and tntfile = "''TMAGxy''" and pos = 0 and ?tbl0.0 = "[]"] short
  have s: "read_sections example_dtypes decode_ascii ''TMAGxy'' 0 [] = Inr ([], 6)"
    by (simp add: fread_def example_dtypes_def)
  have over: "map_of ?tbl ''TMAG'' = Some ?e2"
    using read_sections_table [where D = example_dtypes and decode = decode_ascii
      and tntfile = ?f and pos = 0 and hdr = "take 12 ?f" and key = "''TMAG''"
      and entry = "\<lparr>h_offset = 12, h_length = 2, h_bool = True, h_data = Some ''ab''\<rparr>"]
      later run
    by (simp add: example_dtypes_def decode_ascii_def)
  have above: "map_of [(''DATA'', ?eD)] ''DATA'' = Some ?eD"
    using read_sections_table [where D = example_dtypes and decode = decode_ascii
      and tntfile = ?f and pos = 27 and hdr = "take 12 (drop 27 ?f)" and key = "''DATA''"
      and entry = ?eD]
      last from27
    by (simp add: example_dtypes_def decode_ascii_def)
  have fail: "read_sections example_dtypes decode_ascii ?g 0 [] = Inl AssertionError"
    using read_sections_table [where D = example_dtypes and decode = decode_ascii
      and tntfile = ?g and pos = 0 and ?tbl0.0 = "[]"]
    by (simp add: example_dtypes_def)
  from run d short s later over last from27 above fail show ?thesis by blast
qed

text \<open>
  Claim C6. When the leading bytes of the file do not match the magic pattern the
  constructor raises ValueError (the exception that the specification calls
  FormatError): no object is returned, the file has been opened and closed again, and
  nothing that follows the \<open>with\<close> block has run, so nothing is mapped. The result does
  not depend on the rest of the file.
\<close>

theorem TNTfile_init_bad_magic:
  assumes "\<not> Magic_re_match D (take (Magic_itemsize D) tntfile)"
  shows "TNTfile_init D decode convert_si rest tntfile = (Inl ValueError, [Open, Close])"
proof -
  have "with_block D decode convert_si tntfile = Inl ValueError"
    using assms by (simp add: with_block_def fread_def frombuffer_def)
  then show ?thesis by (simp add: TNTfile_init_def)
qed

theorem TNTfile_init_bad_magic_witness:
  "\<not> Magic_re_match example_dtypes (take (Magic_itemsize example_dtypes) ''TNX1.000TMAG'')
   \<and> TNTfile_init example_dtypes decode_ascii Inr (\<lambda>built. (Inr built, [Memmap])) ''TNX1.000TMAG''
       = (Inl ValueError, [Open, Close])"
proof -
  have m: "\<not> Magic_re_match example_dtypes (take (Magic_itemsize example_dtypes) ''TNX1.000TMAG'')"
    by (simp add: example_dtypes_def)
  from TNTfile_init_bad_magic [OF m] m show ?thesis by blast
qed

text \<open>
  Claim C1 does not hold of the code: \<open>__init__\<close> tests \<open>len(delay) > 1\<close> on the decoded
  string, before it is split, so the test counts characters and not entries. The table
  named \<open>de12:3\<close> whose delay string is the single token \<open>5u\<close> is stored (when
  \<open>convert_si\<close> accepts the token).
\<close>

theorem delay_tables_single_token:
  "delay_tables decode_ascii convert_si
     ([CHR 0x06, CHR 0x00, CHR 0x00, CHR 0x00] @ ''de12:3''
      @ [CHR 0x02, CHR 0x00, CHR 0x00, CHR 0x00] @ ''5u'')
   = (case convert_si [''5u''] of Inl e \<Rightarrow> Inl e | Inr delays \<Rightarrow> Inr [(''de12:3'', delays)])"
  by (simp add: delay_tables_def delay_re_match_def isdigit_def read_pascal_string_def
      slice_from_def decode_ascii_def str_split_def isspace_def split: sum.split)

end
